theory Spec2Isabelle
  imports Complex_Main
begin

section \<open>Flappy Plane: the game logic of flappyplane.js\<close>

text \<open>
  A JavaScript Number is modelled as a real when it is a coordinate or a velocity and as a
  natural number when it is a counter (score, bestScore, frameCount). Rounding of doubles
  and the values NaN and Infinity are outside the model; the constructor and the update
  rules below never produce them.
\<close>

subsection \<open>Game settings\<close>

definition CANVAS_WIDTH :: real where "CANVAS_WIDTH = 400"
definition CANVAS_HEIGHT :: real where "CANVAS_HEIGHT = 600"
definition PIPE_WIDTH :: real where "PIPE_WIDTH = 50"
definition PIPE_GAP :: real where "PIPE_GAP = 140"
definition PIPE_SPEED :: real where "PIPE_SPEED = 3"
definition PIPE_SPAWN_INTERVAL :: nat where "PIPE_SPAWN_INTERVAL = 90"
definition GRAVITY :: real where "GRAVITY = 3 / 10"
definition JUMP_VELOCITY :: real where "JUMP_VELOCITY = - 6"

subsection \<open>Data model\<close>

text \<open>
  Both classes of the source have the fields \<open>x\<close> and \<open>width\<close>. So that both keep these
  names, the two records extend a common record of just these two fields.
\<close>

record span =
  x :: real
  width :: real

record plane = span +
  y :: real
  height :: real
  velocity :: real
  tilt :: real

record obstacle = span +
  passed :: bool
  topHeight :: real
  bottomY :: real
  bottomHeight :: real

text \<open>
  The module-level variables. \<open>plane\<close> is undefined until the first \<open>setup()\<close>, hence an
  option. \<open>localStorage\<close> is modelled on the two score keys: a stored decimal string is the
  number it denotes, an absent key is \<open>None\<close>. \<open>setItemLog\<close> records the calls of
  \<open>localStorage.setItem\<close>, newest first. \<open>restartButton_display\<close> is
  \<open>restartButton.style.display\<close>. The canvas and the animation-frame handle are not
  modelled.
\<close>

record game =
  playerName :: string
  bestPlayerScore :: nat
  plane :: "plane option"
  obstacles :: "obstacle list"
  score :: nat
  bestScore :: nat
  isGameOver :: bool
  frameCount :: nat
  localStorage :: "string \<rightharpoonup> nat"
  setItemLog :: "(string \<times> nat) list"
  restartButton_display :: string

datatype error = TypeError

subsection \<open>Loading the script\<close>

definition getPlayerScoreKey :: "string \<Rightarrow> string" where
  "getPlayerScoreKey name = ''flappyPlaneBestScore_'' @ name"

definition getItem_or_0 :: "(string \<rightharpoonup> nat) \<Rightarrow> string \<Rightarrow> nat" where
  "getItem_or_0 store k = (case store k of None \<Rightarrow> 0 | Some v \<Rightarrow> v)"

text \<open>
  The state after the top-level statements of the script: \<open>stored_name\<close> is what
  \<open>localStorage.getItem('playerName')\<close> returns and \<open>store\<close> holds the score keys. The
  last two statements of the script are \<open>draw()\<close> and the assignment that shows the restart
  button; \<open>draw()\<close> calls \<open>plane.draw()\<close> while \<open>plane\<close> is undefined and throws, so the
  assignment is not reached and the button keeps the inline style of the page,
  \<open>display0\<close>. The listeners are registered before that.
\<close>

definition load :: "string option \<Rightarrow> (string \<rightharpoonup> nat) \<Rightarrow> string \<Rightarrow> game" where
  "load stored_name store display0 =
    (let name = (case stored_name of None \<Rightarrow> ''Player''
                 | Some n \<Rightarrow> if n = [] then ''Player'' else n)
     in \<lparr> playerName = name,
          bestPlayerScore = getItem_or_0 store (getPlayerScoreKey name),
          plane = None,
          obstacles = [],
          score = 0,
          bestScore = getItem_or_0 store ''flappyPlaneBestScore'',
          isGameOver = True,
          frameCount = 0,
          localStorage = store,
          setItemLog = [],
          restartButton_display = display0 \<rparr>)"

subsection \<open>Game over\<close>

definition setItem :: "string \<Rightarrow> nat \<Rightarrow> game \<Rightarrow> game" where
  "setItem k v g = g\<lparr> localStorage := (localStorage g)(k \<mapsto> v),
                      setItemLog := (k, v) # setItemLog g \<rparr>"

definition gameOver :: "game \<Rightarrow> game" where
  "gameOver g =
    (if isGameOver g then g
     else
       let g1 = g\<lparr> isGameOver := True \<rparr>;
           g2 = (if score g1 > bestScore g1
                 then
                   let g1a = g1\<lparr> bestScore := score g1 \<rparr>;
                       g1b = setItem ''flappyPlaneBestScore'' (bestScore g1a) g1a
                   in setItem (getPlayerScoreKey (playerName g1b)) (bestScore g1b) g1b
                 else g1)
       in g2\<lparr> restartButton_display := ''block'' \<rparr>)"

subsection \<open>The plane\<close>

definition Plane_new :: plane where
  "Plane_new = \<lparr> x = 50, width = 40, y = CANVAS_HEIGHT / 2, height = 30,
                 velocity = 0, tilt = 0 \<rparr>"

text \<open>
  \<open>Plane.update\<close> works on \<open>this\<close> and, through \<open>gameOver()\<close>, on the module-level
  variables: it takes both and returns both.
\<close>

definition Plane_update :: "plane \<Rightarrow> game \<Rightarrow> plane \<times> game" where
  "Plane_update this g =
    (let p1 = this\<lparr> velocity := velocity this + GRAVITY \<rparr>;
         p2 = p1\<lparr> y := y p1 + velocity p1 \<rparr>;
         p3 = p2\<lparr> tilt := min (max (- 20) (velocity p2 * 4)) 45 \<rparr>;
         (p4, g4) =
           (if y p3 + height p3 > CANVAS_HEIGHT - 30
            then (p3\<lparr> y := CANVAS_HEIGHT - 30 - height p3, velocity := 0 \<rparr>,
                  if \<not> isGameOver g then gameOver g else g)
            else (p3, g));
         p5 = (if y p4 < 0 then p4\<lparr> y := 0, velocity := 0 \<rparr> else p4)
     in (p5, g4))"

definition Plane_jump :: "plane \<Rightarrow> plane" where
  "Plane_jump this = this\<lparr> velocity := JUMP_VELOCITY \<rparr>"

subsection \<open>Obstacles\<close>

text \<open>The argument \<open>r\<close> is the value \<open>Math.random()\<close> returns, a number in [0, 1).\<close>

definition Obstacle_new :: "real \<Rightarrow> obstacle" where
  "Obstacle_new r =
    (let minTopHeight = 50;
         maxTopHeight = CANVAS_HEIGHT - 50 - PIPE_GAP - 30;
         top = real_of_int \<lfloor>r * (maxTopHeight - minTopHeight + 1)\<rfloor> + minTopHeight;
         bot = top + PIPE_GAP
     in \<lparr> x = CANVAS_WIDTH, width = PIPE_WIDTH, passed = False, topHeight = top,
          bottomY = bot, bottomHeight = CANVAS_HEIGHT - bot - 30 \<rparr>)"

definition Obstacle_update :: "obstacle \<Rightarrow> obstacle" where
  "Obstacle_update this = this\<lparr> x := x this - PIPE_SPEED \<rparr>"

subsection \<open>Core game functions\<close>

text \<open>\<open>setup\<close> of the source; the name is a keyword of Isabelle.\<close>

definition setup_game :: "game \<Rightarrow> game" where
  "setup_game g = g\<lparr> plane := Some Plane_new, obstacles := [], score := 0, frameCount := 0,
                 isGameOver := False, restartButton_display := ''none'' \<rparr>"

definition spawnObstacle :: "real \<Rightarrow> game \<Rightarrow> game" where
  "spawnObstacle r g = g\<lparr> obstacles := obstacles g @ [Obstacle_new r] \<rparr>"

text \<open>The three local constants of the body of the loop of \<open>checkCollision\<close>.\<close>

definition x_overlap :: "plane \<Rightarrow> obstacle \<Rightarrow> bool" where
  "x_overlap p obs \<longleftrightarrow> x p + width p > x obs \<and> x p < x obs + width obs"

definition top_collision :: "plane \<Rightarrow> obstacle \<Rightarrow> bool" where
  "top_collision p obs \<longleftrightarrow> y p < topHeight obs"

definition bottom_collision :: "plane \<Rightarrow> obstacle \<Rightarrow> bool" where
  "bottom_collision p obs \<longleftrightarrow> y p + height p > bottomY obs"

text \<open>
  The loop \<open>for (const obs of obstacles)\<close>, on the obstacles still to visit. It returns
  whether the function returned \<open>true\<close> from inside the loop, these obstacles as the loop
  leaves them (it sets \<open>obs.passed\<close> in place) and the module-level variables.
  \<open>gameOver()\<close> reads and writes no obstacle.
\<close>

fun checkCollision_loop :: "plane \<Rightarrow> obstacle list \<Rightarrow> game \<Rightarrow> bool \<times> obstacle list \<times> game" where
  "checkCollision_loop p [] g = (False, [], g)"
| "checkCollision_loop p (obs # rest) g =
    (if x_overlap p obs \<and> (top_collision p obs \<or> bottom_collision p obs)
     then (True, obs # rest, gameOver g)
     else
       let (obs1, g1) =
             (if x p > x obs + width obs \<and> \<not> passed obs
              then (obs\<lparr> passed := True \<rparr>, g\<lparr> score := score g + 1 \<rparr>)
              else (obs, g));
           (hit, rest2, g2) = checkCollision_loop p rest g1
       in (hit, obs1 # rest2, g2))"

text \<open>
  \<open>checkCollision\<close> reads a field of \<open>plane\<close> only inside the loop: with no plane it
  throws exactly when there is an obstacle to visit.
\<close>

definition checkCollision :: "game \<Rightarrow> error + bool \<times> game" where
  "checkCollision g =
    (case plane g of
       None \<Rightarrow> if obstacles g = [] then Inr (False, g) else Inl TypeError
     | Some p \<Rightarrow>
         let (hit, obs2, g2) = checkCollision_loop p (obstacles g) g
         in Inr (hit, g2\<lparr> obstacles := obs2 \<rparr>))"

text \<open>
  The loop \<open>for (let i = obstacles.length - 1; i >= 0; i--)\<close> of \<open>update\<close>: the first
  argument is \<open>i + 1\<close>, the number of obstacles still to visit, and
  \<open>obstacles.splice(i, 1)\<close> removes the obstacle at index \<open>i\<close>. The loop starts at the
  length of the list and removes only what it has visited, so \<open>i\<close> stays in range.
\<close>

fun update_obstacles :: "nat \<Rightarrow> obstacle list \<Rightarrow> obstacle list" where
  "update_obstacles 0 obs = obs"
| "update_obstacles (Suc i) obs =
    (let obs1 = obs[i := Obstacle_update (obs ! i)];
         obs2 = (if x (obs1 ! i) + width (obs1 ! i) < 0
                 then take i obs1 @ drop (Suc i) obs1
                 else obs1)
     in update_obstacles i obs2)"

text \<open>
  \<open>update\<close>; \<open>r\<close> is the value \<open>Math.random()\<close> returns if this frame spawns an obstacle.
  The value \<open>checkCollision()\<close> returns is dropped, as in the source.
\<close>

definition update :: "real \<Rightarrow> game \<Rightarrow> error + game" where
  "update r g =
    (if isGameOver g then Inr g
     else
       case plane g of
         None \<Rightarrow> Inl TypeError
       | Some p \<Rightarrow>
           let (p1, g1) = Plane_update p g;
               g2 = g1\<lparr> plane := Some p1 \<rparr>;
               g3 = (if frameCount g2 mod PIPE_SPAWN_INTERVAL = 0
                     then spawnObstacle r g2 else g2);
               g4 = g3\<lparr> frameCount := frameCount g3 + 1 \<rparr>;
               g5 = g4\<lparr> obstacles :=
                          update_obstacles (length (obstacles g4)) (obstacles g4) \<rparr>
           in (case checkCollision g5 of
                 Inl e \<Rightarrow> Inl e
               | Inr (hit, g6) \<Rightarrow> Inr g6))"

text \<open>
  \<open>loop\<close> without its drawing and without the request for the next animation frame:
  what remains is the call of \<open>update\<close>.
\<close>

definition loop :: "real \<Rightarrow> game \<Rightarrow> error + game" where
  "loop r g = update r g"

definition startGame :: "real \<Rightarrow> game \<Rightarrow> error + game" where
  "startGame r g = loop r (setup_game g)"

definition handleInput :: "real \<Rightarrow> game \<Rightarrow> error + game" where
  "handleInput r g =
    (if isGameOver g then startGame r g
     else
       case plane g of
         None \<Rightarrow> Inl TypeError
       | Some p \<Rightarrow> Inr (g\<lparr> plane := Some (Plane_jump p) \<rparr>))"

subsection \<open>Runs of the game\<close>

text \<open>
  What the browser can do to a loaded game: press the restart button, deliver an input
  (key, click or touch) or run the next animation frame.
\<close>

datatype event = Restart real | Input real | Frame real

fun random_of :: "event \<Rightarrow> real" where
  "random_of (Restart r) = r"
| "random_of (Input r) = r"
| "random_of (Frame r) = r"

fun step :: "event \<Rightarrow> game \<Rightarrow> error + game" where
  "step (Restart r) g = startGame r g"
| "step (Input r) g = handleInput r g"
| "step (Frame r) g = loop r g"

text \<open>The states reachable from a restart, in any state, by inputs and frames.\<close>

inductive reachable :: "game \<Rightarrow> bool" where
  reach_start: "0 \<le> r \<Longrightarrow> r < 1 \<Longrightarrow> startGame r g0 = Inr g \<Longrightarrow> reachable g"
| reach_step: "reachable g \<Longrightarrow> 0 \<le> random_of e \<Longrightarrow> random_of e < 1 \<Longrightarrow> step e g = Inr g'
         \<Longrightarrow> reachable g'"

subsection \<open>Example states\<close>

text \<open>
  The state after loading the script in a browser whose localStorage is empty, on a page
  that gives the restart button no inline style, and the state after \<open>setup()\<close> from
  there.
\<close>

definition idle_game :: game where
  "idle_game = load None Map.empty []"

definition fresh_game :: game where
  "fresh_game = setup_game idle_game"

text \<open>
  A second player on a browser where another player has already set the overall best
  score of 10: Bob is in a run and has scored 5.
\<close>

definition second_player_game :: game where
  "second_player_game =
     (setup_game (load (Some ''Bob'')
        (Map.empty(''flappyPlaneBestScore'' \<mapsto> 10,
                   getPlayerScoreKey ''Alice'' \<mapsto> 10)) []))\<lparr> score := 5 \<rparr>"

text \<open>
  Three running games with one obstacle: one whose pipe is ahead of the plane (the plane
  spans 50 to 90, the pipe starts at 100), one whose plane, at y = 100, overlaps a pipe
  whose gap starts at 215, and one whose pipe has just gone behind the plane.
\<close>

definition pipe_ahead_game :: game where
  "pipe_ahead_game = fresh_game\<lparr> obstacles := [(Obstacle_new (1 / 2))\<lparr> x := 100 \<rparr>] \<rparr>"

definition pipe_struck_game :: game where
  "pipe_struck_game =
     fresh_game\<lparr> plane := Some (Plane_new\<lparr> y := 100 \<rparr>),
                 obstacles := [(Obstacle_new (1 / 2))\<lparr> x := 60 \<rparr>] \<rparr>"

definition pipe_behind_game :: game where
  "pipe_behind_game = fresh_game\<lparr> obstacles := [(Obstacle_new (1 / 2))\<lparr> x := - 2 \<rparr>] \<rparr>"

subsection \<open>An example run\<close>

text \<open>
  A player who gives an input before a frame exactly when the plane is at y = 300 or
  below it on the screen, in a game where every random draw is 1/2, so that every gap is
  from 215 to 355. \<open>pilot_frame\<close> is this player's input, if any, and the frame;
  \<open>flown_game n\<close> is the state after a restart from the idle state and n such frames.
  \<open>pilot_inv\<close> is what keeps this run alive: the plane stays between 242 and 306, inside
  every gap.
\<close>

definition pilot_frame :: "game \<Rightarrow> error + game" where
  "pilot_frame g =
    (case plane g of
       None \<Rightarrow> Inl TypeError
     | Some p \<Rightarrow>
         if 300 \<le> y p
         then (case handleInput (1 / 2) g of Inl e \<Rightarrow> Inl e | Inr g1 \<Rightarrow> loop (1 / 2) g1)
         else loop (1 / 2) g)"

fun pilot_run :: "nat \<Rightarrow> game \<Rightarrow> error + game" where
  "pilot_run 0 g = Inr g"
| "pilot_run (Suc n) g =
     (case pilot_run n g of Inl e \<Rightarrow> Inl e | Inr g1 \<Rightarrow> pilot_frame g1)"

definition flown_game :: "nat \<Rightarrow> game" where
  "flown_game n = projr (pilot_run n (projr (startGame (1 / 2) idle_game)))"

definition pilot_inv :: "game \<Rightarrow> bool" where
  "pilot_inv g \<longleftrightarrow>
     reachable g \<and> \<not> isGameOver g \<and>
     (\<exists>p. plane g = Some p \<and> height p = 30 \<and> 242 \<le> y p \<and> y p < 306 \<and>
        (y p < 300 \<longrightarrow>
           1458 / 10 \<le> 6 / 10 * y p - (velocity p)\<^sup>2 - 3 / 10 * velocity p)) \<and>
     (\<forall>ob \<in> set (obstacles g). topHeight ob = 215 \<and> bottomY ob = 355)"

subsection \<open>Conditions of the loops\<close>

text \<open>
  Names for the conditions the two loops test: the condition under which \<open>checkCollision\<close>
  returns \<open>true\<close> at an obstacle, the condition under which it scores the obstacle and what
  that does to the obstacle, and the condition under which \<open>update\<close> removes an obstacle.
\<close>

definition pipe_hit :: "plane \<Rightarrow> obstacle \<Rightarrow> bool" where
  "pipe_hit p obs \<longleftrightarrow> x_overlap p obs \<and> (top_collision p obs \<or> bottom_collision p obs)"

definition newly_passed :: "plane \<Rightarrow> obstacle \<Rightarrow> bool" where
  "newly_passed p obs \<longleftrightarrow> x p > x obs + width obs \<and> \<not> passed obs"

definition mark_passed :: "plane \<Rightarrow> obstacle \<Rightarrow> obstacle" where
  "mark_passed p obs = (if newly_passed p obs then obs\<lparr> passed := True \<rparr> else obs)"

definition off_screen :: "obstacle \<Rightarrow> bool" where
  "off_screen obs \<longleftrightarrow> x obs + width obs < 0"

text \<open>
  The invariant of a run. With frameCount = 90 q + k + 1 and k < 90, the newest obstacle
  is at x = 397 - 3 k; the one before it, 270 to its left, is in the list from the second
  spawn on and until it leaves the screen; an obstacle is marked passed exactly when
  it is behind the plane; the score counts the obstacles that have got there.
\<close>

definition run_inv :: "game \<Rightarrow> bool" where
  "run_inv g \<longleftrightarrow>
    (\<exists>p q k. plane g = Some p \<and> x p = 50 \<and> width p = 40 \<and> k < 90 \<and>
       frameCount g = 90 * q + k + 1 \<and>
       map x (obstacles g) =
         (if 1 \<le> q \<and> k \<le> 59 then [127 - 3 * real k] else []) @ [397 - 3 * real k] \<and>
       (\<forall>ob \<in> set (obstacles g). width ob = 50 \<and> (passed ob \<longleftrightarrow> x ob < 0)) \<and>
       score g = (if 43 \<le> k then q else q - 1))"

text \<open>
  The invariant of the flight. The plane keeps its height and stays between the ceiling and
  the ground line; while it falls, its speed is bounded by the height it has fallen through
  (v v + 0.3 v \<le> 0.6 y, for its speed v); the gap of every obstacle ends at 520 or above; while the game
  runs the plane is in no pipe; when the game is over the overall best score is at least
  the score.
\<close>

definition flight_inv :: "game \<Rightarrow> bool" where
  "flight_inv g \<longleftrightarrow>
    (\<exists>p. plane g = Some p \<and> height p = 30 \<and> 0 \<le> y p \<and> y p \<le> 540 \<and>
       (0 < velocity p \<longrightarrow> (velocity p)\<^sup>2 + 3 / 10 * velocity p \<le> 6 / 10 * y p) \<and>
       (\<forall>ob \<in> set (obstacles g). bottomY ob \<le> 520) \<and>
       (\<not> isGameOver g \<longrightarrow> (\<forall>ob \<in> set (obstacles g). \<not> pipe_hit p ob)) \<and>
       (isGameOver g \<longrightarrow> score g \<le> bestScore g))"

section \<open>Properties\<close>

lemmas settings =
  CANVAS_WIDTH_def CANVAS_HEIGHT_def PIPE_WIDTH_def PIPE_GAP_def PIPE_SPEED_def
  PIPE_SPAWN_INTERVAL_def GRAVITY_def JUMP_VELOCITY_def

subsection \<open>Basic facts\<close>

lemma isGameOver_gameOver: "isGameOver (gameOver g)"
  by (simp add: gameOver_def setItem_def Let_def)

lemma gameOver_keeps [simp]:
  "plane (gameOver g) = plane g" "obstacles (gameOver g) = obstacles g"
  "score (gameOver g) = score g" "frameCount (gameOver g) = frameCount g"
  "playerName (gameOver g) = playerName g" "bestPlayerScore (gameOver g) = bestPlayerScore g"
  by (simp_all add: gameOver_def setItem_def Let_def)

lemma Obstacle_new_simps [simp]:
  "x (Obstacle_new r) = 400" "width (Obstacle_new r) = 50" "passed (Obstacle_new r) = False"
  by (simp_all add: Obstacle_new_def settings Let_def)

lemma Obstacle_update_simps [simp]:
  "x (Obstacle_update obs) = x obs - 3" "width (Obstacle_update obs) = width obs"
  "passed (Obstacle_update obs) = passed obs" "topHeight (Obstacle_update obs) = topHeight obs"
  "bottomY (Obstacle_update obs) = bottomY obs"
  by (simp_all add: Obstacle_update_def settings)

lemma idle_game_simps [simp]:
  "isGameOver idle_game" "plane idle_game = None" "obstacles idle_game = []"
  "setItemLog idle_game = []"
  by (simp_all add: idle_game_def load_def Let_def)

lemma fresh_game_simps [simp]:
  "\<not> isGameOver fresh_game" "plane fresh_game = Some Plane_new" "obstacles fresh_game = []"
  "score fresh_game = 0" "frameCount fresh_game = 0"
  by (simp_all add: fresh_game_def setup_game_def)

subsection \<open>The plane's update\<close>

lemma Plane_update_fst:
  "fst (Plane_update this g) =
    (let v1 = velocity this + GRAVITY;
         y1 = y this + v1;
         p3 = this\<lparr> velocity := v1, y := y1, tilt := min (max (- 20) (v1 * 4)) 45 \<rparr>;
         p4 = (if y1 + height this > CANVAS_HEIGHT - 30
               then p3\<lparr> y := CANVAS_HEIGHT - 30 - height this, velocity := 0 \<rparr> else p3)
     in if y p4 < 0 then p4\<lparr> y := 0, velocity := 0 \<rparr> else p4)"
  by (simp add: Plane_update_def Let_def split: prod.splits)

lemma Plane_update_snd:
  "snd (Plane_update this g) =
    (if y this + (velocity this + GRAVITY) + height this > CANVAS_HEIGHT - 30
     then (if \<not> isGameOver g then gameOver g else g) else g)"
  by (simp add: Plane_update_def Let_def split: prod.splits)

lemma Plane_update_keeps [simp]:
  "x (fst (Plane_update this g)) = x this" "width (fst (Plane_update this g)) = width this"
  "height (fst (Plane_update this g)) = height this"
  by (simp_all add: Plane_update_fst Let_def)

lemma Plane_update_game_keeps [simp]:
  "plane (snd (Plane_update this g)) = plane g"
  "obstacles (snd (Plane_update this g)) = obstacles g"
  "score (snd (Plane_update this g)) = score g"
  "frameCount (snd (Plane_update this g)) = frameCount g"
  by (simp_all add: Plane_update_snd)

text \<open>
  C3: after \<open>Plane.update\<close>, from any position and velocity, y lies in
  [0, CANVAS_HEIGHT - 30 - height], which is [0, 540] for the plane the constructor builds,
  and the velocity is 0 whenever one of the two clamps applied (equivalently, whenever y is
  not the value gravity alone gives). The height is that of a plane that fits above the
  ground line; the constructor's is 30.
\<close>

theorem Plane_update_y_clamped:
  assumes "height this \<le> CANVAS_HEIGHT - 30"
  shows "0 \<le> y (fst (Plane_update this g)) \<and>
         y (fst (Plane_update this g)) \<le> CANVAS_HEIGHT - 30 - height this \<and>
         (y this + (velocity this + GRAVITY) + height this > CANVAS_HEIGHT - 30 \<or>
          y this + (velocity this + GRAVITY) < 0
            \<longrightarrow> velocity (fst (Plane_update this g)) = 0) \<and>
         (y (fst (Plane_update this g)) \<noteq> y this + (velocity this + GRAVITY)
            \<longrightarrow> velocity (fst (Plane_update this g)) = 0)"
  using assms by (auto simp add: Plane_update_fst Let_def)

theorem Plane_update_y_clamped_witness:
  "height Plane_new \<le> CANVAS_HEIGHT - 30 \<and>
   CANVAS_HEIGHT - 30 - height Plane_new = 540 \<and>
   0 \<le> y (fst (Plane_update (Plane_new\<lparr> y := 539, velocity := 5 \<rparr>) fresh_game)) \<and>
   y (fst (Plane_update (Plane_new\<lparr> y := 539, velocity := 5 \<rparr>) fresh_game)) \<le> 540 \<and>
   y (fst (Plane_update (Plane_new\<lparr> y := 539, velocity := 5 \<rparr>) fresh_game)) = 540 \<and>
   velocity (fst (Plane_update (Plane_new\<lparr> y := 539, velocity := 5 \<rparr>) fresh_game)) = 0"
  using Plane_update_y_clamped [of "Plane_new\<lparr> y := 539, velocity := 5 \<rparr>" fresh_game]
  by (simp add: Plane_new_def settings Plane_update_fst Let_def)

text \<open>
  C6: in \<open>Plane.update\<close>, when y + height is beyond the ground line after gravity, y is set
  to the ground position, the velocity to 0 and \<open>gameOver()\<close> runs unless the game is over
  already, so the game is over afterwards; when y is negative after gravity, y and the
  velocity are set to 0 and the module-level state is left as it was.
\<close>

theorem Plane_update_ground_terminal_ceiling_not:
  assumes "height this \<le> CANVAS_HEIGHT - 30"
  shows "(y this + (velocity this + GRAVITY) + height this > CANVAS_HEIGHT - 30 \<longrightarrow>
            y (fst (Plane_update this g)) = CANVAS_HEIGHT - 30 - height this \<and>
            velocity (fst (Plane_update this g)) = 0 \<and>
            snd (Plane_update this g) = (if isGameOver g then g else gameOver g) \<and>
            isGameOver (snd (Plane_update this g))) \<and>
         (y this + (velocity this + GRAVITY) < 0 \<longrightarrow>
            y (fst (Plane_update this g)) = 0 \<and>
            velocity (fst (Plane_update this g)) = 0 \<and>
            snd (Plane_update this g) = g)"
  using assms
  by (auto simp add: Plane_update_fst Plane_update_snd Let_def isGameOver_gameOver)

theorem Plane_update_ground_terminal_ceiling_not_witness:
  "height Plane_new \<le> CANVAS_HEIGHT - 30 \<and>
   y (Plane_new\<lparr> y := 539, velocity := 5 \<rparr>) + (velocity (Plane_new\<lparr> y := 539, velocity := 5 \<rparr>) + GRAVITY)
     + height (Plane_new\<lparr> y := 539, velocity := 5 \<rparr>) > CANVAS_HEIGHT - 30 \<and>
   y (fst (Plane_update (Plane_new\<lparr> y := 539, velocity := 5 \<rparr>) fresh_game)) = 540 \<and>
   snd (Plane_update (Plane_new\<lparr> y := 539, velocity := 5 \<rparr>) fresh_game) = gameOver fresh_game \<and>
   \<not> isGameOver fresh_game \<and>
   isGameOver (snd (Plane_update (Plane_new\<lparr> y := 539, velocity := 5 \<rparr>) fresh_game)) \<and>
   y (Plane_new\<lparr> y := 2, velocity := - 6 \<rparr>) + (velocity (Plane_new\<lparr> y := 2, velocity := - 6 \<rparr>) + GRAVITY) < 0 \<and>
   y (fst (Plane_update (Plane_new\<lparr> y := 2, velocity := - 6 \<rparr>) fresh_game)) = 0 \<and>
   velocity (fst (Plane_update (Plane_new\<lparr> y := 2, velocity := - 6 \<rparr>) fresh_game)) = 0 \<and>
   snd (Plane_update (Plane_new\<lparr> y := 2, velocity := - 6 \<rparr>) fresh_game) = fresh_game \<and>
   \<not> isGameOver (snd (Plane_update (Plane_new\<lparr> y := 2, velocity := - 6 \<rparr>) fresh_game))"
proof -
  have h: "height (Plane_new\<lparr> y := 539, velocity := 5 \<rparr>) \<le> CANVAS_HEIGHT - 30"
          "height (Plane_new\<lparr> y := 2, velocity := - 6 \<rparr>) \<le> CANVAS_HEIGHT - 30"
    by (simp_all add: Plane_new_def settings)
  have a: "y (Plane_new\<lparr> y := 539, velocity := 5 \<rparr>)
             + (velocity (Plane_new\<lparr> y := 539, velocity := 5 \<rparr>) + GRAVITY)
             + height (Plane_new\<lparr> y := 539, velocity := 5 \<rparr>) > CANVAS_HEIGHT - 30"
    by (simp add: Plane_new_def settings)
  have b: "y (Plane_new\<lparr> y := 2, velocity := - 6 \<rparr>)
             + (velocity (Plane_new\<lparr> y := 2, velocity := - 6 \<rparr>) + GRAVITY) < 0"
    by (simp add: Plane_new_def settings)
  have c: "CANVAS_HEIGHT - 30 - height (Plane_new\<lparr> y := 539, velocity := 5 \<rparr>) = 540"
          "height Plane_new \<le> CANVAS_HEIGHT - 30"
    by (simp_all add: Plane_new_def settings)
  show ?thesis
    using a b c
      Plane_update_ground_terminal_ceiling_not [OF h(1), of fresh_game]
      Plane_update_ground_terminal_ceiling_not [OF h(2), of fresh_game]
    by (simp add: isGameOver_gameOver)
qed

subsection \<open>Jump and input\<close>

lemma startGame_result:
  "startGame r g =
     Inr (g\<lparr> plane := Some (Plane_new\<lparr> y := 3003 / 10, velocity := 3 / 10, tilt := 6 / 5 \<rparr>),
             obstacles := [(Obstacle_new r)\<lparr> x := 397 \<rparr>],
             score := 0, frameCount := 1, isGameOver := False,
             restartButton_display := ''none'' \<rparr>)"
  by (simp add: startGame_def loop_def update_def setup_game_def Plane_new_def
      Plane_update_def settings Let_def spawnObstacle_def checkCollision_def x_overlap_def
      Obstacle_update_def Obstacle_new_def top_collision_def bottom_collision_def)

text \<open>
  C7: \<open>jump\<close> sets the velocity to JUMP_VELOCITY = -6 whatever it was. While the game
  runs, an input is this jump of the plane and nothing else. While the game is over, an input
  is \<open>startGame()\<close>: it succeeds, and the plane it leaves is the new plane after its first
  frame, with velocity 0.3 and not -6.
\<close>

theorem jump_overwrites_velocity:
  "velocity (Plane_jump this) = JUMP_VELOCITY \<and> JUMP_VELOCITY = - 6 \<and>
   (\<not> isGameOver g \<and> plane g = Some p \<longrightarrow>
      handleInput r g = Inr (g\<lparr> plane := Some (p\<lparr> velocity := - 6 \<rparr>) \<rparr>)) \<and>
   (isGameOver g \<longrightarrow>
      handleInput r g = startGame r g \<and>
      \<not> isl (handleInput r g) \<and>
      plane (projr (handleInput r g)) =
        Some (Plane_new\<lparr> y := 3003 / 10, velocity := 3 / 10, tilt := 6 / 5 \<rparr>) \<and>
      velocity (Plane_new\<lparr> y := 3003 / 10, velocity := 3 / 10, tilt := 6 / 5 \<rparr>)
        \<noteq> JUMP_VELOCITY)"
  by (simp add: Plane_jump_def handleInput_def JUMP_VELOCITY_def startGame_result)

theorem jump_overwrites_velocity_witness:
  "\<not> isGameOver fresh_game \<and> plane fresh_game = Some Plane_new \<and>
   handleInput (1 / 2) fresh_game =
     Inr (fresh_game\<lparr> plane := Some (Plane_new\<lparr> velocity := - 6 \<rparr>) \<rparr>) \<and>
   isGameOver idle_game \<and>
   handleInput (1 / 2) idle_game = startGame (1 / 2) idle_game \<and>
   plane (projr (handleInput (1 / 2) idle_game)) =
     Some (Plane_new\<lparr> y := 3003 / 10, velocity := 3 / 10, tilt := 6 / 5 \<rparr>)"
proof -
  have a: "\<not> isGameOver fresh_game \<and> plane fresh_game = Some Plane_new"
    by simp
  have b: "isGameOver idle_game" by simp
  from a jump_overwrites_velocity [of Plane_new fresh_game Plane_new "1 / 2"]
  have c: "handleInput (1 / 2) fresh_game =
     Inr (fresh_game\<lparr> plane := Some (Plane_new\<lparr> velocity := - 6 \<rparr>) \<rparr>)"
    by blast
  from b jump_overwrites_velocity [of Plane_new idle_game Plane_new "1 / 2"]
  have d: "handleInput (1 / 2) idle_game = startGame (1 / 2) idle_game \<and>
     plane (projr (handleInput (1 / 2) idle_game)) =
       Some (Plane_new\<lparr> y := 3003 / 10, velocity := 3 / 10, tilt := 6 / 5 \<rparr>)"
    by blast
  from a b c d show ?thesis by blast
qed

subsection \<open>Restart\<close>

text \<open>
  C9, as the claim states it, fails: \<open>startGame()\<close> calls \<open>loop()\<close> after \<open>setup()\<close>, and
  \<open>loop()\<close> runs \<open>update()\<close> at once. When the restart action returns from the idle state,
  frameCount is 1, there is one obstacle and the plane has fallen one step.
\<close>

theorem startGame_runs_first_frame_counterexample:
  "\<not> isl (startGame (1 / 2) idle_game) \<and>
   frameCount (projr (startGame (1 / 2) idle_game)) = 1 \<and>
   frameCount (projr (startGame (1 / 2) idle_game)) \<noteq> 0 \<and>
   length (obstacles (projr (startGame (1 / 2) idle_game))) = 1 \<and>
   obstacles (projr (startGame (1 / 2) idle_game)) \<noteq> [] \<and>
   plane (projr (startGame (1 / 2) idle_game)) =
     Some (Plane_new\<lparr> y := 3003 / 10, velocity := 3 / 10, tilt := 6 / 5 \<rparr>) \<and>
   plane (projr (startGame (1 / 2) idle_game)) \<noteq> Some Plane_new"
  by (simp add: startGame_result Plane_new_def)

text \<open>
  C9, amended: from every state, \<open>setup()\<close> sets score to 0, the obstacle list to empty,
  frameCount to 0, the plane to a new plane (x = 50, y = CANVAS_HEIGHT / 2 = 300, velocity
  0) and the game to running. The restart action \<open>startGame()\<close> is \<open>setup()\<close> followed by
  the first frame: when it returns, score is 0 and the game is running, frameCount is 1,
  the obstacle list holds the obstacle spawned in that frame, at x = 397, and the plane has
  y = 300.3 and velocity 0.3.
\<close>

theorem restart_resets_then_runs_first_frame:
  "score (setup_game g) = 0 \<and> obstacles (setup_game g) = [] \<and>
   frameCount (setup_game g) = 0 \<and> plane (setup_game g) = Some Plane_new \<and>
   x Plane_new = 50 \<and> y Plane_new = CANVAS_HEIGHT / 2 \<and> y Plane_new = 300 \<and>
   velocity Plane_new = 0 \<and>
   \<not> isGameOver (setup_game g) \<and>
   startGame r g = loop r (setup_game g) \<and>
   startGame r g =
     Inr (g\<lparr> plane := Some (Plane_new\<lparr> y := 3003 / 10, velocity := 3 / 10, tilt := 6 / 5 \<rparr>),
             obstacles := [(Obstacle_new r)\<lparr> x := 397 \<rparr>],
             score := 0, frameCount := 1, isGameOver := False,
             restartButton_display := ''none'' \<rparr>)"
proof -
  have a: "startGame r g = loop r (setup_game g)"
    by (simp add: startGame_def)
  have d: "score (setup_game g) = 0 \<and> obstacles (setup_game g) = [] \<and>
     frameCount (setup_game g) = 0 \<and> plane (setup_game g) = Some Plane_new \<and>
     \<not> isGameOver (setup_game g)"
    by (simp add: setup_game_def)
  have e: "x Plane_new = 50 \<and> y Plane_new = CANVAS_HEIGHT / 2 \<and> y Plane_new = 300 \<and>
     velocity Plane_new = 0"
    by (simp add: Plane_new_def settings)
  from a d e startGame_result [of r g] show ?thesis by blast
qed

subsection \<open>Game over and the best score\<close>

text \<open>
  C5: \<open>gameOver()\<close> in a game that is over already returns the state it was given: no
  variable, no stored value and no entry of the log of \<open>setItem\<close> calls changes. So a second
  call right after a first changes nothing.
\<close>

theorem gameOver_again_noop:
  "(isGameOver g \<longrightarrow>
      gameOver g = g \<and> isGameOver (gameOver g) = isGameOver g \<and>
      score (gameOver g) = score g \<and> bestScore (gameOver g) = bestScore g \<and>
      bestPlayerScore (gameOver g) = bestPlayerScore g \<and>
      localStorage (gameOver g) = localStorage g \<and>
      setItemLog (gameOver g) = setItemLog g) \<and>
   isGameOver (gameOver g) \<and>
   gameOver (gameOver g) = gameOver g"
  by (simp add: gameOver_def setItem_def Let_def)

theorem gameOver_again_noop_witness:
  "isGameOver idle_game \<and> gameOver idle_game = idle_game \<and>
   setItemLog (gameOver idle_game) = setItemLog idle_game \<and>
   \<not> isGameOver fresh_game \<and> gameOver fresh_game \<noteq> fresh_game \<and>
   gameOver (gameOver fresh_game) = gameOver fresh_game"
proof -
  have a: "isGameOver idle_game" by simp
  have b: "\<not> isGameOver fresh_game" by simp
  from gameOver_again_noop [of idle_game] a
  have c: "gameOver idle_game = idle_game \<and>
           setItemLog (gameOver idle_game) = setItemLog idle_game"
    by blast
  from gameOver_again_noop [of fresh_game]
  have d: "isGameOver (gameOver fresh_game) \<and>
           gameOver (gameOver fresh_game) = gameOver fresh_game"
    by blast
  from b d have e: "gameOver fresh_game \<noteq> fresh_game" by metis
  from a b c d e show ?thesis by blast
qed

text \<open>
  What \<open>gameOver()\<close> does to the best scores when it ends a run. The overall best score,
  the variable and the stored value it was loaded from, becomes the maximum of itself and the
  score. The player's stored value is written only when the overall best is beaten, and the
  variable \<open>bestPlayerScore\<close> is never written.
\<close>

lemma gameOver_bestScore_max:
  "\<not> isGameOver g \<Longrightarrow> bestScore (gameOver g) = max (bestScore g) (score g)"
  by (simp add: gameOver_def setItem_def Let_def max_def)

lemma gameOver_stored_overall_max:
  assumes "\<not> isGameOver g"
    and "getItem_or_0 (localStorage g) ''flappyPlaneBestScore'' = bestScore g"
  shows "getItem_or_0 (localStorage (gameOver g)) ''flappyPlaneBestScore''
           = max (bestScore g) (score g)"
  using assms
  by (simp add: gameOver_def setItem_def Let_def max_def getItem_or_0_def
      getPlayerScoreKey_def)

lemma gameOver_stored_player:
  assumes "\<not> isGameOver g"
  shows "localStorage (gameOver g) (getPlayerScoreKey (playerName g))
           = (if score g > bestScore g then Some (score g)
              else localStorage g (getPlayerScoreKey (playerName g)))"
  using assms by (simp add: gameOver_def setItem_def Let_def)

lemma gameOver_setItemLog:
  assumes "\<not> isGameOver g"
  shows "setItemLog (gameOver g)
           = (if score g > bestScore g
              then [(getPlayerScoreKey (playerName g), score g),
                    (''flappyPlaneBestScore'', score g)] @ setItemLog g
              else setItemLog g)"
  using assms by (simp add: gameOver_def setItem_def Let_def)

text \<open>
  C1 does not hold of the player's best score. Bob plays on a browser where the overall
  best is 10 and he has no stored score; his run ends with score 5. The claim gives him a
  stored best of max 0 5 = 5; \<open>gameOver()\<close> compares with the overall best only and
  leaves his key absent, which reads as 0.
\<close>

theorem gameOver_player_best_not_max:
  "\<not> isGameOver second_player_game \<and>
   playerName second_player_game = ''Bob'' \<and>
   score second_player_game = 5 \<and>
   bestScore second_player_game = 10 \<and>
   bestPlayerScore second_player_game = 0 \<and>
   getItem_or_0 (localStorage second_player_game) (getPlayerScoreKey ''Bob'') = 0 \<and>
   isGameOver (gameOver second_player_game) \<and>
   localStorage (gameOver second_player_game) (getPlayerScoreKey ''Bob'') = None \<and>
   getItem_or_0 (localStorage (gameOver second_player_game)) (getPlayerScoreKey ''Bob'') = 0 \<and>
   bestPlayerScore (gameOver second_player_game) = 0 \<and>
   getItem_or_0 (localStorage (gameOver second_player_game)) (getPlayerScoreKey ''Bob'')
     \<noteq> max (getItem_or_0 (localStorage second_player_game) (getPlayerScoreKey ''Bob''))
           (score second_player_game)"
  by (simp add: second_player_game_def setup_game_def load_def Let_def gameOver_def
      getItem_or_0_def getPlayerScoreKey_def)

subsection \<open>New obstacles\<close>

lemma floor_random_bounds:
  fixes r :: real
  assumes "0 \<le> r" and "r < 1"
  shows "0 \<le> \<lfloor>r * 331\<rfloor> \<and> \<lfloor>r * 331\<rfloor> \<le> 330"
proof -
  have "0 \<le> r * 331" using assms by simp
  then have a: "0 \<le> \<lfloor>r * 331\<rfloor>" by simp
  have "r * 331 < 331" using assms by simp
  then have "\<lfloor>r * 331\<rfloor> < 331" by (simp add: floor_less_iff)
  with a show ?thesis by simp
qed

text \<open>
  C8: for every random draw in [0, 1), the new obstacle has 50 \<le> topHeight \<le> 380, where
  380 is CANVAS_HEIGHT - 50 - PIPE_GAP - 30; its bottomHeight is
  600 - (topHeight + 140) - 30 and is not negative; the gap, from topHeight to
  bottomY = topHeight + 140, ends at or above the ground line.
\<close>

theorem Obstacle_new_gap_in_playfield:
  assumes "0 \<le> r" and "r < 1"
  shows "50 \<le> topHeight (Obstacle_new r) \<and> topHeight (Obstacle_new r) \<le> 380 \<and>
         CANVAS_HEIGHT - 50 - PIPE_GAP - 30 = 380 \<and>
         bottomY (Obstacle_new r) = topHeight (Obstacle_new r) + 140 \<and>
         bottomY (Obstacle_new r) \<le> CANVAS_HEIGHT - 30 \<and>
         bottomHeight (Obstacle_new r) = 600 - (topHeight (Obstacle_new r) + 140) - 30 \<and>
         0 \<le> bottomHeight (Obstacle_new r)"
proof -
  have top: "topHeight (Obstacle_new r) = real_of_int \<lfloor>r * 331\<rfloor> + 50"
    by (simp add: Obstacle_new_def settings Let_def)
  have bot: "bottomY (Obstacle_new r) = topHeight (Obstacle_new r) + 140"
    by (simp add: Obstacle_new_def settings Let_def)
  have bh: "bottomHeight (Obstacle_new r) = 600 - (topHeight (Obstacle_new r) + 140) - 30"
    by (simp add: Obstacle_new_def settings Let_def)
  from floor_random_bounds [OF assms]
  have "0 \<le> real_of_int \<lfloor>r * 331\<rfloor>" and "real_of_int \<lfloor>r * 331\<rfloor> \<le> 330"
    by linarith+
  with top bot bh show ?thesis by (simp add: settings)
qed

theorem Obstacle_new_gap_in_playfield_witness:
  "(0::real) \<le> 1 / 2 \<and> (1 / 2 :: real) < 1 \<and>
   topHeight (Obstacle_new (1 / 2)) = 215 \<and>
   50 \<le> topHeight (Obstacle_new (1 / 2)) \<and> topHeight (Obstacle_new (1 / 2)) \<le> 380 \<and>
   bottomHeight (Obstacle_new (1 / 2)) = 215 \<and> 0 \<le> bottomHeight (Obstacle_new (1 / 2))"
proof -
  have t: "topHeight (Obstacle_new (1 / 2)) = 215"
    by (simp add: Obstacle_new_def settings Let_def)
  show ?thesis
    using Obstacle_new_gap_in_playfield [of "1 / 2"] t by simp
qed

subsection \<open>The two loops and one frame\<close>

lemma update_obstacles_eq:
  "n \<le> length obs \<Longrightarrow>
   update_obstacles n obs =
     filter (\<lambda>ob. \<not> off_screen ob) (map Obstacle_update (take n obs)) @ drop n obs"
proof (induction n arbitrary: obs)
  case 0
  then show ?case by simp
next
  case (Suc n)
  then have n: "n < length obs" by simp
  have tk: "take (Suc n) obs = take n obs @ [obs ! n]"
    using n by (simp add: take_Suc_conv_app_nth)
  show ?case
  proof (cases "off_screen (Obstacle_update (obs ! n))")
    case True
    have "update_obstacles (Suc n) obs = update_obstacles n (take n obs @ drop (Suc n) obs)"
      using True n by (simp add: off_screen_def Let_def)
    also have "\<dots> = filter (\<lambda>ob. \<not> off_screen ob) (map Obstacle_update (take n obs))
                      @ drop (Suc n) obs"
      using n by (subst Suc.IH) (simp_all add: min_def)
    finally show ?thesis using True by (simp add: tk)
  next
    case False
    have "update_obstacles (Suc n) obs = update_obstacles n (obs[n := Obstacle_update (obs ! n)])"
      using False n by (simp add: off_screen_def Let_def)
    also have "\<dots> = filter (\<lambda>ob. \<not> off_screen ob) (map Obstacle_update (take n obs))
                      @ Obstacle_update (obs ! n) # drop (Suc n) obs"
      using n by (subst Suc.IH) (simp_all add: drop_update_cancel Cons_nth_drop_Suc [symmetric] upd_conv_take_nth_drop)
    finally show ?thesis using False by (simp add: tk)
  qed
qed

lemma checkCollision_loop_Cons:
  "checkCollision_loop p (obs # rest) g =
    (if pipe_hit p obs then (True, obs # rest, gameOver g)
     else
       let g1 = (if newly_passed p obs then g\<lparr> score := score g + 1 \<rparr> else g);
           (hit, rest2, g2) = checkCollision_loop p rest g1
       in (hit, mark_passed p obs # rest2, g2))"
  by (auto simp add: pipe_hit_def newly_passed_def mark_passed_def Let_def split: prod.splits)

lemma checkCollision_loop_spec:
  "checkCollision_loop p obs g =
    (let pre = takeWhile (\<lambda>ob. \<not> pipe_hit p ob) obs;
         suf = dropWhile (\<lambda>ob. \<not> pipe_hit p ob) obs;
         g1 = g\<lparr> score := score g + length (filter (newly_passed p) pre) \<rparr>
     in (suf \<noteq> [], map (mark_passed p) pre @ suf, if suf \<noteq> [] then gameOver g1 else g1))"
proof (induction obs arbitrary: g)
  case Nil
  then show ?case by simp
next
  case (Cons obs rest)
  show ?case
  proof (cases "pipe_hit p obs")
    case True
    then show ?thesis
      by (simp add: checkCollision_loop_Cons del: checkCollision_loop.simps)
  next
    case False
    then show ?thesis
      by (simp add: checkCollision_loop_Cons Cons.IH Let_def del: checkCollision_loop.simps)
  qed
qed



lemma checkCollision_spec:
  assumes "plane g = Some p"
  shows "checkCollision g =
    (let pre = takeWhile (\<lambda>ob. \<not> pipe_hit p ob) (obstacles g);
         suf = dropWhile (\<lambda>ob. \<not> pipe_hit p ob) (obstacles g);
         g1 = g\<lparr> score := score g + length (filter (newly_passed p) pre) \<rparr>
     in Inr (suf \<noteq> [],
             (if suf \<noteq> [] then gameOver g1 else g1)\<lparr> obstacles := map (mark_passed p) pre @ suf \<rparr>))"
  using assms by (simp add: checkCollision_def checkCollision_loop_spec Let_def)

text \<open>
  One running frame, as a state: the plane moves, obstacles spawn, move and leave, and
  \<open>checkCollision\<close> scores the obstacles before the first pipe the plane is in, where it
  ends the game.
\<close>

lemma update_running_state:
  fixes r :: real and g :: game and p :: plane
  assumes "\<not> isGameOver g" and "plane g = Some p"
  defines "p1 \<equiv> fst (Plane_update p g)"
  defines "obs5 \<equiv> filter (\<lambda>ob. \<not> off_screen ob)
     (map Obstacle_update
        (obstacles g @ (if frameCount g mod PIPE_SPAWN_INTERVAL = 0 then [Obstacle_new r] else [])))"
  defines "pre \<equiv> takeWhile (\<lambda>ob. \<not> pipe_hit p1 ob) obs5"
  defines "suf \<equiv> dropWhile (\<lambda>ob. \<not> pipe_hit p1 ob) obs5"
  defines "g6 \<equiv> (snd (Plane_update p g))\<lparr> plane := Some p1, frameCount := frameCount g + 1,
                    obstacles := obs5,
                    score := score g + length (filter (newly_passed p1) pre) \<rparr>"
  shows "update r g = Inr ((if suf \<noteq> [] then gameOver g6 else g6)
                              \<lparr> obstacles := map (mark_passed p1) pre @ suf \<rparr>)"
proof -
  obtain g1 where pu: "Plane_update p g = (p1, g1)"
    unfolding p1_def by (cases "Plane_update p g") simp
  have g1: "g1 = snd (Plane_update p g)" using pu by simp
  have keep: "frameCount g1 = frameCount g" "obstacles g1 = obstacles g" "score g1 = score g"
    by (simp_all add: g1)
  define g5 where "g5 = g1\<lparr> plane := Some p1, frameCount := frameCount g + 1, obstacles := obs5 \<rparr>"
  have u: "update r g = (case checkCollision g5 of Inl e \<Rightarrow> Inl e | Inr (hit, g6) \<Rightarrow> Inr g6)"
    using assms(1,2)
    by (simp add: update_def pu Let_def spawnObstacle_def update_obstacles_eq g5_def obs5_def keep)
  have p5: "plane g5 = Some p1" by (simp add: g5_def)
  show ?thesis
    unfolding u checkCollision_spec [OF p5]
    by (simp add: Let_def g5_def pre_def suf_def keep g6_def g1 [symmetric])
qed


lemma update_running:
  fixes r :: real and g :: game and p :: plane
  assumes "\<not> isGameOver g" and "plane g = Some p"
  defines "p1 \<equiv> fst (Plane_update p g)"
  defines "obs5 \<equiv> filter (\<lambda>ob. \<not> off_screen ob)
     (map Obstacle_update
        (obstacles g @ (if frameCount g mod PIPE_SPAWN_INTERVAL = 0 then [Obstacle_new r] else [])))"
  defines "pre \<equiv> takeWhile (\<lambda>ob. \<not> pipe_hit p1 ob) obs5"
  defines "suf \<equiv> dropWhile (\<lambda>ob. \<not> pipe_hit p1 ob) obs5"
  shows "\<exists>g'. update r g = Inr g' \<and> plane g' = Some p1 \<and>
           frameCount g' = frameCount g + 1 \<and>
           obstacles g' = map (mark_passed p1) pre @ suf \<and>
           score g' = score g + length (filter (newly_passed p1) pre) \<and>
           (isGameOver g' \<longleftrightarrow> isGameOver (snd (Plane_update p g)) \<or> suf \<noteq> [])"
  unfolding update_running_state [OF assms(1,2)] p1_def obs5_def pre_def suf_def
  by (simp add: isGameOver_gameOver)

lemma run_invI:
  assumes "plane g = Some p" "x p = 50" "width p = 40" "k < 90"
    "frameCount g = 90 * q + k + 1"
    "map x (obstacles g) =
       (if 1 \<le> q \<and> k \<le> 59 then [127 - 3 * real k] else []) @ [397 - 3 * real k]"
    "\<forall>ob \<in> set (obstacles g). width ob = 50 \<and> (passed ob \<longleftrightarrow> x ob < 0)"
    "score g = (if 43 \<le> k then q else q - 1)"
  shows "run_inv g"
  unfolding run_inv_def using assms by blast

lemma mark_passed_simps [simp]:
  "x (mark_passed p ob) = x ob" "width (mark_passed p ob) = width ob"
  "passed (mark_passed p ob) \<longleftrightarrow> passed ob \<or> newly_passed p ob"
  by (simp_all add: mark_passed_def)

lemma pipe_hit_x: "pipe_hit p ob \<Longrightarrow> x ob < x p + width p \<and> x p < x ob + width ob"
  by (simp add: pipe_hit_def x_overlap_def)

lemma run_inv_update:
  assumes inv: "run_inv g" and upd: "update r g = Inr g'"
  shows "run_inv g'"
proof (cases "isGameOver g")
  case True
  then have "g' = g" using upd by (simp add: update_def)
  then show ?thesis using inv by simp
next
  case False
  from inv obtain p q k where
    pl: "plane g = Some p" and xp: "x p = 50" and wp: "width p = 40" and k: "k < 90" and
    fc: "frameCount g = 90 * q + k + 1" and
    xs: "map x (obstacles g) =
           (if 1 \<le> q \<and> k \<le> 59 then [127 - 3 * real k] else []) @ [397 - 3 * real k]" and
    fl: "\<forall>ob \<in> set (obstacles g). width ob = 50 \<and> (passed ob \<longleftrightarrow> x ob < 0)" and
    sc: "score g = (if 43 \<le> k then q else q - 1)"
    unfolding run_inv_def by blast
  define p1 where "p1 = fst (Plane_update p g)"
  define obs5 where "obs5 = filter (\<lambda>ob. \<not> off_screen ob)
     (map Obstacle_update
        (obstacles g @ (if frameCount g mod PIPE_SPAWN_INTERVAL = 0 then [Obstacle_new r] else [])))"
  define pre where "pre = takeWhile (\<lambda>ob. \<not> pipe_hit p1 ob) obs5"
  define suf where "suf = dropWhile (\<lambda>ob. \<not> pipe_hit p1 ob) obs5"
  from update_running [OF False pl, of r] upd
  have g': "plane g' = Some p1" "frameCount g' = frameCount g + 1"
    "obstacles g' = map (mark_passed p1) pre @ suf"
    "score g' = score g + length (filter (newly_passed p1) pre)"
    unfolding p1_def obs5_def pre_def suf_def by auto
  have p1: "x p1 = 50" "width p1 = 40" by (simp_all add: p1_def xp wp)
  have hit: "\<And>ob. pipe_hit p1 ob \<Longrightarrow> x ob < 90 \<and> 50 < x ob + width ob"
    using pipe_hit_x [of p1] p1 by fastforce
  have spawn: "frameCount g mod PIPE_SPAWN_INTERVAL = 0 \<longleftrightarrow> k = 89"
    using k unfolding fc PIPE_SPAWN_INTERVAL_def by presburger
  consider (spawn) "k = 89" | (two) "k < 89" "1 \<le> q" "k \<le> 59" | (one) "k < 89" "\<not> (1 \<le> q \<and> k \<le> 59)"
    using k by linarith
  then show ?thesis
  proof cases
    case spawn
    from xs spawn obtain o1 where o1: "obstacles g = [o1]" "x o1 = 130"
      by (auto simp add: map_eq_Cons_conv)
    have fo1: "width o1 = 50" "\<not> passed o1" using fl o1 by auto
    have obs5: "obs5 = [Obstacle_update o1, Obstacle_update (Obstacle_new r)]"
      using spawn o1 fo1 by (simp add: obs5_def \<open>frameCount g mod PIPE_SPAWN_INTERVAL = 0 \<longleftrightarrow> k = 89\<close> off_screen_def)
    have nh: "\<not> pipe_hit p1 (Obstacle_update o1)" "\<not> pipe_hit p1 (Obstacle_update (Obstacle_new r))"
      using hit [of "Obstacle_update o1"] hit [of "Obstacle_update (Obstacle_new r)"] o1 by auto
    have pre: "pre = obs5" "suf = []" by (simp_all add: pre_def suf_def obs5 nh)
    have np: "\<not> newly_passed p1 (Obstacle_update o1)" "\<not> newly_passed p1 (Obstacle_update (Obstacle_new r))"
      using o1 fo1 p1 by (simp_all add: newly_passed_def)
    have og: "obstacles g' = [Obstacle_update o1, Obstacle_update (Obstacle_new r)]"
      "score g' = score g"
      using g'(3,4) np by (simp_all add: pre obs5 mark_passed_def)
    show ?thesis
    proof (rule run_invI [of g' p1 0 "q + 1"])
      show "map x (obstacles g') =
         (if 1 \<le> q + 1 \<and> (0::nat) \<le> 59 then [127 - 3 * real 0] else []) @ [397 - 3 * real 0]"
        by (simp add: og o1)
      show "\<forall>ob \<in> set (obstacles g'). width ob = 50 \<and> (passed ob \<longleftrightarrow> x ob < 0)"
        by (simp add: og o1 fo1)
      show "score g' = (if 43 \<le> (0::nat) then q + 1 else q + 1 - 1)"
        using sc spawn by (simp add: og)
    qed (simp_all add: g' p1 fc spawn)
  next
    case two
    from xs two obtain o0 o1 where o: "obstacles g = [o0, o1]"
      "x o0 = 127 - 3 * real k" "x o1 = 397 - 3 * real k"
      by (auto simp add: map_eq_Cons_conv)
    have fo: "width o0 = 50" "width o1 = 50" "passed o0 \<longleftrightarrow> 43 \<le> k" "\<not> passed o1"
      using fl o two by auto
    define u0 where "u0 = Obstacle_update o0"
    define u1 where "u1 = Obstacle_update o1"
    have u: "x u0 = 124 - 3 * real k" "x u1 = 394 - 3 * real k" "width u0 = 50" "width u1 = 50"
      "passed u0 \<longleftrightarrow> 43 \<le> k" "\<not> passed u1"
      using o fo by (simp_all add: u0_def u1_def)
    have nh1: "\<not> pipe_hit p1 u1" using hit [of u1] u two by auto
    have np1: "\<not> newly_passed p1 u1" using u p1 two by (simp add: newly_passed_def)
    have np0: "newly_passed p1 u0 \<longleftrightarrow> k = 42"
      using u p1 by (auto simp add: newly_passed_def)
    show ?thesis
    proof (cases "k = 59")
      case True
      have obs5: "obs5 = [u1]"
        using two True o u by (simp add: obs5_def spawn off_screen_def u0_def u1_def)
      have og: "obstacles g' = [u1]" "score g' = score g"
        using g'(3,4) by (simp_all add: pre_def suf_def obs5 nh1 np1 mark_passed_def)
      show ?thesis
      proof (rule run_invI [of g' p1 "k + 1" q])
        show "map x (obstacles g') =
           (if 1 \<le> q \<and> k + 1 \<le> 59 then [127 - 3 * real (k + 1)] else [])
             @ [397 - 3 * real (k + 1)]"
          using True by (simp add: og u)
        show "\<forall>ob \<in> set (obstacles g'). width ob = 50 \<and> (passed ob \<longleftrightarrow> x ob < 0)"
          using True by (simp add: og u)
        show "score g' = (if 43 \<le> k + 1 then q else q - 1)"
          using sc True by (simp add: og)
      qed (use two in \<open>simp_all add: g' p1 fc\<close>)
    next
      case False
      then have k58: "k < 59" using two by simp
      have obs5: "obs5 = [u0, u1]"
        using two k58 o u by (simp add: obs5_def spawn off_screen_def u0_def u1_def)
      show ?thesis
      proof (cases "pipe_hit p1 u0")
        case True
        then have k41: "k \<le> 41" using hit [of u0] u by auto
        have og: "obstacles g' = [u0, u1]" "score g' = score g"
          using g'(3,4) True by (simp_all add: pre_def suf_def obs5)
        show ?thesis
        proof (rule run_invI [of g' p1 "k + 1" q])
          show "map x (obstacles g') =
             (if 1 \<le> q \<and> k + 1 \<le> 59 then [127 - 3 * real (k + 1)] else [])
               @ [397 - 3 * real (k + 1)]"
            using two k58 by (simp add: og u)
          show "\<forall>ob \<in> set (obstacles g'). width ob = 50 \<and> (passed ob \<longleftrightarrow> x ob < 0)"
            using k41 by (simp add: og u)
          show "score g' = (if 43 \<le> k + 1 then q else q - 1)"
            using sc k41 by (simp add: og)
        qed (use two in \<open>simp_all add: g' p1 fc\<close>)
      next
        case nh0: False
        have og: "obstacles g' = [mark_passed p1 u0, mark_passed p1 u1]"
          "score g' = score g + (if k = 42 then 1 else 0)"
          using g'(3,4) nh0 nh1 np0 np1 by (simp_all add: pre_def suf_def obs5)
        show ?thesis
        proof (rule run_invI [of g' p1 "k + 1" q])
          show "map x (obstacles g') =
             (if 1 \<le> q \<and> k + 1 \<le> 59 then [127 - 3 * real (k + 1)] else [])
               @ [397 - 3 * real (k + 1)]"
            using two k58 by (simp add: og u)
          show "\<forall>ob \<in> set (obstacles g'). width ob = 50 \<and> (passed ob \<longleftrightarrow> x ob < 0)"
            using two by (auto simp add: og u np0 np1)
          show "score g' = (if 43 \<le> k + 1 then q else q - 1)"
            using sc two by (auto simp add: og)
        qed (use two in \<open>simp_all add: g' p1 fc\<close>)
      qed
    qed
  next
    case one
    from xs one obtain o1 where o: "obstacles g = [o1]" "x o1 = 397 - 3 * real k"
      by (auto simp add: map_eq_Cons_conv)
    have fo: "width o1 = 50" "\<not> passed o1"
      using fl o one by auto
    define u1 where "u1 = Obstacle_update o1"
    have u: "x u1 = 394 - 3 * real k" "width u1 = 50" "\<not> passed u1"
      using o fo by (simp_all add: u1_def)
    have nh1: "\<not> pipe_hit p1 u1" using hit [of u1] u one by auto
    have np1: "\<not> newly_passed p1 u1" using u p1 one by (simp add: newly_passed_def)
    have obs5: "obs5 = [u1]"
      using one o u by (simp add: obs5_def spawn off_screen_def u1_def)
    have og: "obstacles g' = [u1]" "score g' = score g"
      using g'(3,4) by (simp_all add: pre_def suf_def obs5 nh1 np1 mark_passed_def)
    show ?thesis
    proof (rule run_invI [of g' p1 "k + 1" q])
      show "map x (obstacles g') =
         (if 1 \<le> q \<and> k + 1 \<le> 59 then [127 - 3 * real (k + 1)] else [])
           @ [397 - 3 * real (k + 1)]"
        using one by (auto simp add: og u)
      show "\<forall>ob \<in> set (obstacles g'). width ob = 50 \<and> (passed ob \<longleftrightarrow> x ob < 0)"
        using one by (simp add: og u)
      show "score g' = (if 43 \<le> k + 1 then q else q - 1)"
        using sc one by (auto simp add: og)
    qed (use one in \<open>simp_all add: g' p1 fc\<close>)
  qed
qed

subsection \<open>Runs: the invariant and its consequences\<close>

lemma run_inv_startGame:
  assumes "startGame r g0 = Inr g"
  shows "run_inv g"
proof (rule run_invI [of g "Plane_new\<lparr> y := 3003 / 10, velocity := 3 / 10, tilt := 6 / 5 \<rparr>" 0 0])
  have g: "g = g0\<lparr> plane := Some (Plane_new\<lparr> y := 3003 / 10, velocity := 3 / 10, tilt := 6 / 5 \<rparr>),
             obstacles := [(Obstacle_new r)\<lparr> x := 397 \<rparr>],
             score := 0, frameCount := 1, isGameOver := False,
             restartButton_display := ''none'' \<rparr>"
    using assms by (simp add: startGame_result)
  show "plane g = Some (Plane_new\<lparr> y := 3003 / 10, velocity := 3 / 10, tilt := 6 / 5 \<rparr>)"
    by (simp add: g)
  show "frameCount g = 90 * 0 + 0 + 1" by (simp add: g)
  show "map x (obstacles g) =
     (if 1 \<le> (0::nat) \<and> (0::nat) \<le> 59 then [127 - 3 * real 0] else []) @ [397 - 3 * real 0]"
    by (simp add: g)
  show "\<forall>ob \<in> set (obstacles g). width ob = 50 \<and> (passed ob \<longleftrightarrow> x ob < 0)"
    by (simp add: g)
  show "score g = (if 43 \<le> (0::nat) then 0 else 0 - 1)" by (simp add: g)
qed (simp_all add: Plane_new_def)

lemma run_inv_handleInput:
  assumes "run_inv g" and "handleInput r g = Inr g'"
  shows "run_inv g'"
proof (cases "isGameOver g")
  case True
  then show ?thesis using assms(2) run_inv_startGame by (simp add: handleInput_def)
next
  case False
  from assms(1) obtain p where p: "plane g = Some p" unfolding run_inv_def by blast
  have g': "g' = g\<lparr> plane := Some (Plane_jump p) \<rparr>"
    using assms(2) False p by (simp add: handleInput_def)
  from assms(1) obtain p0 q k where
    pl: "plane g = Some p0" and xp: "x p0 = 50" and wp: "width p0 = 40" and k: "k < 90" and
    fc: "frameCount g = 90 * q + k + 1" and
    xs: "map x (obstacles g) =
           (if 1 \<le> q \<and> k \<le> 59 then [127 - 3 * real k] else []) @ [397 - 3 * real k]" and
    fl: "\<forall>ob \<in> set (obstacles g). width ob = 50 \<and> (passed ob \<longleftrightarrow> x ob < 0)" and
    sc: "score g = (if 43 \<le> k then q else q - 1)"
    unfolding run_inv_def by blast
  have pp: "p0 = p" using pl p by simp
  show ?thesis
    by (rule run_invI [of g' "Plane_jump p" k q])
       (use xp wp k fc xs fl sc pp in \<open>simp_all add: g' Plane_jump_def\<close>)
qed

lemma reachable_run_inv: "reachable g \<Longrightarrow> run_inv g"
proof (induction rule: reachable.induct)
  case (reach_start r g0 g)
  then show ?case by (simp add: run_inv_startGame)
next
  case (reach_step g e g')
  show ?case
  proof (cases e)
    case (Restart r)
    then show ?thesis using reach_step.hyps(4) run_inv_startGame by simp
  next
    case (Input r)
    then show ?thesis using reach_step.hyps(4) reach_step.IH run_inv_handleInput by simp
  next
    case (Frame r)
    then show ?thesis
      using reach_step.hyps(4) reach_step.IH run_inv_update by (simp add: loop_def)
  qed
qed

lemma Obstacle_update_funpow:
  "x ((Obstacle_update ^^ n) ob) = x ob - 3 * real n \<and>
   width ((Obstacle_update ^^ n) ob) = width ob"
  by (induction n) (simp_all add: algebra_simps)

lemma Obstacle_new_off_screen_after:
  "off_screen ((Obstacle_update ^^ n) (Obstacle_new r)) \<longleftrightarrow> 151 \<le> n"
proof -
  have "off_screen ((Obstacle_update ^^ n) (Obstacle_new r)) \<longleftrightarrow> 450 - 3 * real n < 0"
    by (simp add: off_screen_def Obstacle_update_funpow)
  also have "\<dots> \<longleftrightarrow> 151 \<le> n" by linarith
  finally show ?thesis .
qed

lemma reachable_passed_iff:
  assumes "reachable g" and "plane g = Some p"
  shows "\<forall>ob \<in> set (obstacles g). passed ob \<longleftrightarrow> x p > x ob + width ob"
proof -
  from reachable_run_inv [OF assms(1)] obtain p0 where
    pl: "plane g = Some p0" and xp: "x p0 = 50" and
    fl: "\<forall>ob \<in> set (obstacles g). width ob = 50 \<and> (passed ob \<longleftrightarrow> x ob < 0)"
    unfolding run_inv_def by blast
  have "p0 = p" using pl assms(2) by simp
  then show ?thesis using xp fl by simp
qed

lemma score_of_frameCount:
  fixes q k :: nat
  assumes "k < 90"
  shows "(90 * q + k + 1 - 44) div 90 = (if 43 \<le> k then q else q - 1)"
proof (cases "43 \<le> k")
  case True
  then have "90 * q + k + 1 - 44 = (k - 43) + q * 90" by simp
  moreover have "k - 43 < 90" using assms by simp
  ultimately show ?thesis using True by simp
next
  case False
  show ?thesis
  proof (cases q)
    case 0
    then show ?thesis using False by simp
  next
    case (Suc q')
    then have "90 * q + k + 1 - 44 = (k + 47) + q' * 90" using False by simp
    moreover have "k + 47 < 90" using False by simp
    ultimately show ?thesis using False Suc by simp
  qed
qed

lemma reachable_score:
  assumes "reachable g"
  shows "score g = (frameCount g - 44) div 90"
proof -
  from reachable_run_inv [OF assms] obtain q k :: nat where
    "k < 90" "frameCount g = 90 * q + k + 1" "score g = (if 43 \<le> k then q else q - 1)"
    unfolding run_inv_def by blast
  then show ?thesis using score_of_frameCount [of k q] by simp
qed

subsection \<open>Collisions and scoring\<close>

lemma x_overlap_iff_spans:
  assumes "0 < width p" and "0 < width ob"
  shows "x_overlap p ob \<longleftrightarrow>
           {x p ..< x p + width p} \<inter> {x ob ..< x ob + width ob} \<noteq> {}"
proof
  assume "x_overlap p ob"
  then have "max (x p) (x ob) \<in> {x p ..< x p + width p} \<inter> {x ob ..< x ob + width ob}"
    using assms by (auto simp add: x_overlap_def max_def)
  then show "{x p ..< x p + width p} \<inter> {x ob ..< x ob + width ob} \<noteq> {}" by blast
next
  assume "{x p ..< x p + width p} \<inter> {x ob ..< x ob + width ob} \<noteq> {}"
  then have "\<exists>z. z \<in> {x p ..< x p + width p} \<and> z \<in> {x ob ..< x ob + width ob}"
    by blast
  then obtain z where "x p \<le> z \<and> z < x p + width p \<and> x ob \<le> z \<and> z < x ob + width ob"
    unfolding atLeastLessThan_iff by blast
  then show "x_overlap p ob" by (simp add: x_overlap_def)
qed

lemma checkCollision_results:
  assumes "plane g = Some p"
  defines "pre \<equiv> takeWhile (\<lambda>ob. \<not> pipe_hit p ob) (obstacles g)"
  defines "suf \<equiv> dropWhile (\<lambda>ob. \<not> pipe_hit p ob) (obstacles g)"
  shows "\<not> isl (checkCollision g)"
    and "fst (projr (checkCollision g)) \<longleftrightarrow> (\<exists>ob \<in> set (obstacles g). pipe_hit p ob)"
    and "obstacles (snd (projr (checkCollision g))) = map (mark_passed p) pre @ suf"
    and "score (snd (projr (checkCollision g)))
           = score g + length (filter (newly_passed p) pre)"
    and "isGameOver (snd (projr (checkCollision g)))
           \<longleftrightarrow> isGameOver g \<or> fst (projr (checkCollision g))"
proof -
  have hit: "suf \<noteq> [] \<longleftrightarrow> (\<exists>ob \<in> set (obstacles g). pipe_hit p ob)"
    by (auto simp add: suf_def dropWhile_eq_Nil_conv)
  show "\<not> isl (checkCollision g)"
    by (simp add: checkCollision_spec [OF assms(1)] Let_def)
  show "fst (projr (checkCollision g)) \<longleftrightarrow> (\<exists>ob \<in> set (obstacles g). pipe_hit p ob)"
    using hit by (simp add: checkCollision_spec [OF assms(1)] Let_def suf_def)
  show "obstacles (snd (projr (checkCollision g))) = map (mark_passed p) pre @ suf"
    by (simp add: checkCollision_spec [OF assms(1)] Let_def suf_def pre_def)
  show "score (snd (projr (checkCollision g)))
           = score g + length (filter (newly_passed p) pre)"
    by (simp add: checkCollision_spec [OF assms(1)] Let_def suf_def pre_def)
  show "isGameOver (snd (projr (checkCollision g)))
           \<longleftrightarrow> isGameOver g \<or> fst (projr (checkCollision g))"
    by (simp add: checkCollision_spec [OF assms(1)] Let_def suf_def pre_def isGameOver_gameOver)
qed


lemma newly_passed_not_passed: "newly_passed p ob \<Longrightarrow> \<not> passed ob"
  by (simp add: newly_passed_def)

lemma flips_zip_same:
  "filter (\<lambda>(ob, ob'). \<not> passed ob \<and> passed ob') (zip suf suf) = []"
  by (induction suf) simp_all

lemma flips_count:
  "length (filter (\<lambda>(ob, ob'). \<not> passed ob \<and> passed ob')
             (zip (pre @ suf) (map (mark_passed p) pre @ suf)))
     = length (filter (newly_passed p) pre)"
  by (induction pre) (auto simp add: flips_zip_same dest: newly_passed_not_passed)

lemma marks_related:
  "list_all2
     (\<lambda>ob ob'. if passed ob then ob' = ob
                else ob' = ob \<or> (x p > x ob + width ob \<and> ob' = ob\<lparr> passed := True \<rparr>))
     (pre @ suf) (map (mark_passed p) pre @ suf)"
proof (rule list_all2_appendI)
  show "list_all2
     (\<lambda>ob ob'. if passed ob then ob' = ob
                else ob' = ob \<or> (x p > x ob + width ob \<and> ob' = ob\<lparr> passed := True \<rparr>))
     pre (map (mark_passed p) pre)"
    by (simp add: list_all2_map2 list_all2_same mark_passed_def newly_passed_def)
  show "list_all2
     (\<lambda>ob ob'. if passed ob then ob' = ob
                else ob' = ob \<or> (x p > x ob + width ob \<and> ob' = ob\<lparr> passed := True \<rparr>))
     suf suf"
    by (simp add: list_all2_same)
qed

lemma example_games_simps [simp]:
  "plane pipe_ahead_game = Some Plane_new"
  "obstacles pipe_ahead_game = [(Obstacle_new (1 / 2))\<lparr> x := 100 \<rparr>]"
  "plane pipe_struck_game = Some (Plane_new\<lparr> y := 100 \<rparr>)"
  "obstacles pipe_struck_game = [(Obstacle_new (1 / 2))\<lparr> x := 60 \<rparr>]"
  "plane pipe_behind_game = Some Plane_new"
  "obstacles pipe_behind_game = [(Obstacle_new (1 / 2))\<lparr> x := - 2 \<rparr>]"
  "score pipe_behind_game = 0"
  "\<not> isGameOver pipe_ahead_game" "\<not> isGameOver pipe_struck_game"
  "\<not> isGameOver pipe_behind_game"
  by (simp_all add: pipe_ahead_game_def pipe_struck_game_def pipe_behind_game_def)

lemma checkCollision_pipe_behind:
  "checkCollision pipe_behind_game =
     Inr (False, pipe_behind_game\<lparr> score := 1,
            obstacles := [(Obstacle_new (1 / 2))\<lparr> x := - 2, passed := True \<rparr>] \<rparr>)"
  by (simp add: checkCollision_def x_overlap_def Plane_new_def)

lemma checkCollision_pipe_behind_again:
  "checkCollision (pipe_behind_game\<lparr> score := 1,
            obstacles := [(Obstacle_new (1 / 2))\<lparr> x := - 2, passed := True \<rparr>] \<rparr>) =
     Inr (False, pipe_behind_game\<lparr> score := 1,
            obstacles := [(Obstacle_new (1 / 2))\<lparr> x := - 2, passed := True \<rparr>] \<rparr>)"
  by (simp add: checkCollision_def x_overlap_def Plane_new_def)

text \<open>
  C2: with a plane, \<open>checkCollision\<close> returns, and it returns \<open>true\<close> exactly when some
  obstacle of the list has the plane's horizontal span over its own (x + width > obs.x and
  x < obs.x + obs.width) and the plane's top above the top pipe's end (y < topHeight) or
  its bottom below the bottom pipe's start (y + height > bottomY). The game is over
  afterwards exactly when it was over before or \<open>true\<close> is returned. The obstacles before
  the first such obstacle have been through the scoring step; that obstacle and all after it
  are as they were, and only those before it can have scored. A plane at x = 50 of width 40
  meets no obstacle at x = 100 of width 50, whatever its y. For positive widths the
  horizontal test is that the half-open spans intersect.
\<close>

theorem checkCollision_hit_iff:
  assumes "plane g = Some p"
  shows "\<not> isl (checkCollision g) \<and>
    (fst (projr (checkCollision g)) \<longleftrightarrow>
       (\<exists>ob \<in> set (obstacles g).
          (x p + width p > x ob \<and> x p < x ob + width ob) \<and>
          (y p < topHeight ob \<or> y p + height p > bottomY ob))) \<and>
    (isGameOver (snd (projr (checkCollision g)))
       \<longleftrightarrow> isGameOver g \<or> fst (projr (checkCollision g))) \<and>
    obstacles (snd (projr (checkCollision g)))
      = map (mark_passed p) (takeWhile (\<lambda>ob. \<not> pipe_hit p ob) (obstacles g))
          @ dropWhile (\<lambda>ob. \<not> pipe_hit p ob) (obstacles g) \<and>
    score (snd (projr (checkCollision g)))
      = score g + length (filter (newly_passed p)
                            (takeWhile (\<lambda>ob. \<not> pipe_hit p ob) (obstacles g))) \<and>
    (x p = 50 \<and> width p = 40 \<and> (\<forall>ob \<in> set (obstacles g). x ob = 100 \<and> width ob = 50)
       \<longrightarrow> \<not> fst (projr (checkCollision g))) \<and>
    (0 < width p \<longrightarrow>
       (\<forall>ob :: obstacle. 0 < width ob \<longrightarrow>
          (x p + width p > x ob \<and> x p < x ob + width ob) =
          ({x p ..< x p + width p} \<inter> {x ob ..< x ob + width ob} \<noteq> {})))"
proof -
  note res = checkCollision_results [OF assms]
  have b: "fst (projr (checkCollision g)) \<longleftrightarrow>
       (\<exists>ob \<in> set (obstacles g).
          (x p + width p > x ob \<and> x p < x ob + width ob) \<and>
          (y p < topHeight ob \<or> y p + height p > bottomY ob))"
    unfolding res(2)
    by (simp add: pipe_hit_def x_overlap_def top_collision_def bottom_collision_def)
  have f: "\<not> fst (projr (checkCollision g))"
    if "x p = 50 \<and> width p = 40 \<and> (\<forall>ob \<in> set (obstacles g). x ob = 100 \<and> width ob = 50)"
  proof -
    from that have "\<not> (x p + width p > x ob \<and> x p < x ob + width ob)"
      if "ob \<in> set (obstacles g)" for ob
      using that by simp
    then show ?thesis unfolding b by blast
  qed
  have s: "(x p + width p > x ob \<and> x p < x ob + width ob) =
          ({x p ..< x p + width p} \<inter> {x ob ..< x ob + width ob} \<noteq> {})"
    if "0 < width p" "0 < width ob" for ob :: obstacle
    using x_overlap_iff_spans [OF that] by (simp add: x_overlap_def)
  show ?thesis
  proof (intro conjI)
    show "\<not> isl (checkCollision g)" by (rule res(1))
    show "fst (projr (checkCollision g)) \<longleftrightarrow>
       (\<exists>ob \<in> set (obstacles g).
          (x p + width p > x ob \<and> x p < x ob + width ob) \<and>
          (y p < topHeight ob \<or> y p + height p > bottomY ob))"
      by (rule b)
    show "isGameOver (snd (projr (checkCollision g)))
       \<longleftrightarrow> isGameOver g \<or> fst (projr (checkCollision g))"
      by (rule res(5))
    show "obstacles (snd (projr (checkCollision g)))
      = map (mark_passed p) (takeWhile (\<lambda>ob. \<not> pipe_hit p ob) (obstacles g))
          @ dropWhile (\<lambda>ob. \<not> pipe_hit p ob) (obstacles g)"
      by (rule res(3))
    show "score (snd (projr (checkCollision g)))
      = score g + length (filter (newly_passed p)
                            (takeWhile (\<lambda>ob. \<not> pipe_hit p ob) (obstacles g)))"
      by (rule res(4))
    show "x p = 50 \<and> width p = 40 \<and> (\<forall>ob \<in> set (obstacles g). x ob = 100 \<and> width ob = 50)
       \<longrightarrow> \<not> fst (projr (checkCollision g))"
      using f by (rule impI)
    show "0 < width p \<longrightarrow>
       (\<forall>ob :: obstacle. 0 < width ob \<longrightarrow>
          (x p + width p > x ob \<and> x p < x ob + width ob) =
          ({x p ..< x p + width p} \<inter> {x ob ..< x ob + width ob} \<noteq> {}))"
      by (intro impI allI) (rule s)
  qed
qed


theorem checkCollision_hit_iff_witness:
  "plane pipe_struck_game = Some (Plane_new\<lparr> y := 100 \<rparr>) \<and>
   \<not> isGameOver pipe_struck_game \<and>
   fst (projr (checkCollision pipe_struck_game)) \<and>
   isGameOver (snd (projr (checkCollision pipe_struck_game))) \<and>
   plane pipe_ahead_game = Some Plane_new \<and> x Plane_new = 50 \<and> width Plane_new = 40 \<and>
   obstacles pipe_ahead_game = [(Obstacle_new (1 / 2))\<lparr> x := 100 \<rparr>] \<and>
   \<not> isGameOver pipe_ahead_game \<and>
   \<not> fst (projr (checkCollision pipe_ahead_game)) \<and>
   \<not> isGameOver (snd (projr (checkCollision pipe_ahead_game)))"
proof -
  have h1: "plane pipe_struck_game = Some (Plane_new\<lparr> y := 100 \<rparr>)" by simp
  have h2: "plane pipe_ahead_game = Some Plane_new" by simp
  note t1 = checkCollision_hit_iff [OF h1]
  note t2 = checkCollision_hit_iff [OF h2]
  have e1: "\<exists>ob \<in> set (obstacles pipe_struck_game).
          (x (Plane_new\<lparr> y := 100 \<rparr>) + width (Plane_new\<lparr> y := 100 \<rparr>) > x ob \<and>
           x (Plane_new\<lparr> y := 100 \<rparr>) < x ob + width ob) \<and>
          (y (Plane_new\<lparr> y := 100 \<rparr>) < topHeight ob \<or>
           y (Plane_new\<lparr> y := 100 \<rparr>) + height (Plane_new\<lparr> y := 100 \<rparr>) > bottomY ob)"
    by (simp add: Plane_new_def Obstacle_new_def settings Let_def)
  from t1 e1 have f1: "fst (projr (checkCollision pipe_struck_game))" by blast
  from t1 f1 have g1: "isGameOver (snd (projr (checkCollision pipe_struck_game)))" by blast
  have e2: "x Plane_new = 50 \<and> width Plane_new = 40 \<and>
            (\<forall>ob \<in> set (obstacles pipe_ahead_game). x ob = 100 \<and> width ob = 50)"
    by (simp add: Plane_new_def)
  from t2 e2 have f2: "\<not> fst (projr (checkCollision pipe_ahead_game))" by blast
  have n1: "\<not> isGameOver pipe_struck_game" and n2: "\<not> isGameOver pipe_ahead_game" by simp_all
  from t2 f2 n2 have g2: "\<not> isGameOver (snd (projr (checkCollision pipe_ahead_game)))" by blast
  have o2: "obstacles pipe_ahead_game = [(Obstacle_new (1 / 2))\<lparr> x := 100 \<rparr>]" by simp
  from h1 n1 f1 g1 h2 e2 o2 n2 f2 g2 show ?thesis by blast
qed

subsection \<open>Further facts about runs\<close>

text \<open>
  Over a whole run the plane keeps the constructor's height and its y stays in [0, 540].
\<close>

lemma reachable_plane_bounds:
  assumes "reachable g"
  shows "\<exists>p. plane g = Some p \<and> height p = 30 \<and> 0 \<le> y p \<and> y p \<le> 540"
  using assms
proof (induction rule: reachable.induct)
  case (reach_start r g0 g)
  then show ?case by (auto simp add: startGame_result Plane_new_def)
next
  case (reach_step g e g')
  from reach_step.IH obtain p where
    p: "plane g = Some p" "height p = 30" "0 \<le> y p" "y p \<le> 540" by blast
  have frame: "\<exists>p'. plane g' = Some p' \<and> height p' = 30 \<and> 0 \<le> y p' \<and> y p' \<le> 540"
    if "update r g = Inr g'" for r
  proof (cases "isGameOver g")
    case True
    then have "g' = g" using that by (simp add: update_def)
    then show ?thesis using p by simp
  next
    case False
    from update_running [OF False p(1), of r] that
    have "plane g' = Some (fst (Plane_update p g))" by auto
    moreover have "height (fst (Plane_update p g)) = 30" using p by simp
    moreover have "0 \<le> y (fst (Plane_update p g)) \<and> y (fst (Plane_update p g)) \<le> 540"
      using p by (auto simp add: Plane_update_fst Let_def settings)
    ultimately show ?thesis by simp
  qed
  show ?case
  proof (cases e)
    case (Restart r)
    then show ?thesis using reach_step.hyps(4) by (auto simp add: startGame_result Plane_new_def)
  next
    case (Input r)
    show ?thesis
    proof (cases "isGameOver g")
      case True
      then show ?thesis
        using reach_step.hyps(4) Input
        by (auto simp add: handleInput_def startGame_result Plane_new_def)
    next
      case False
      then have "g' = g\<lparr> plane := Some (Plane_jump p) \<rparr>"
        using reach_step.hyps(4) Input p by (simp add: handleInput_def)
      then show ?thesis using p by (simp add: Plane_jump_def)
    qed
  next
    case (Frame r)
    then show ?thesis using reach_step.hyps(4) frame by (simp add: loop_def)
  qed
qed

text \<open>
  The bound of two obstacles is reached. A player who jumps before every frame stays
  under the ceiling, which does not end the run, and no pipe is over the plane before frame
  104; so there is a running state at every frameCount up to 103, and at frameCount 91 the
  list holds two obstacles.
\<close>

lemma hover_one_frame:
  assumes r: "reachable g" and running: "\<not> isGameOver g" and early: "frameCount g \<le> 102"
  shows "\<exists>g'. reachable g' \<and> \<not> isGameOver g' \<and> frameCount g' = frameCount g + 1"
proof -
  from reachable_plane_bounds [OF r] obtain p where
    p: "plane g = Some p" "height p = 30" "0 \<le> y p" "y p \<le> 540" by blast
  from reachable_run_inv [OF r] p(1) obtain q k where
    xp: "x p = 50" "width p = 40" and k: "k < 90" and fc: "frameCount g = 90 * q + k + 1" and
    xs: "map x (obstacles g) =
           (if 1 \<le> q \<and> k \<le> 59 then [127 - 3 * real k] else []) @ [397 - 3 * real k]"
    unfolding run_inv_def by auto
  define g1 where "g1 = g\<lparr> plane := Some (Plane_jump p) \<rparr>"
  have i: "handleInput (1 / 2) g = Inr g1"
    using running p by (simp add: handleInput_def g1_def)
  have r1: "reachable g1"
    by (rule reach_step [OF r, of "Input (1 / 2)"]) (simp_all add: i)
  have g1: "\<not> isGameOver g1" "plane g1 = Some (Plane_jump p)" "frameCount g1 = frameCount g"
    "obstacles g1 = obstacles g"
    using running by (simp_all add: g1_def)
  define p1 where "p1 = fst (Plane_update (Plane_jump p) g1)"
  define obs5 where "obs5 = filter (\<lambda>ob. \<not> off_screen ob)
     (map Obstacle_update
        (obstacles g1 @ (if frameCount g1 mod PIPE_SPAWN_INTERVAL = 0
                         then [Obstacle_new (1 / 2)] else [])))"
  from update_running [OF g1(1) g1(2), of "1 / 2"] obtain g' where
    g': "update (1 / 2) g1 = Inr g'" "frameCount g' = frameCount g1 + 1"
      "isGameOver g' \<longleftrightarrow> isGameOver (snd (Plane_update (Plane_jump p) g1))
          \<or> dropWhile (\<lambda>ob. \<not> pipe_hit p1 ob) obs5 \<noteq> []"
    unfolding p1_def obs5_def by blast
  have ng: "snd (Plane_update (Plane_jump p) g1) = g1"
    using p by (simp add: Plane_update_snd Plane_jump_def settings)
  have far3: "93 \<le> x ob" if "ob \<in> set (obstacles g)" for ob
  proof -
    from that have "x ob \<in> set (map x (obstacles g))" by simp
    then show ?thesis
      unfolding xs using early k fc by (auto split: if_splits)
  qed
  have "90 \<le> x ob" if "ob \<in> set obs5" for ob
    using that far3 unfolding obs5_def g1 by (auto split: if_splits)
  moreover have "x p1 = 50" "width p1 = 40" by (simp_all add: p1_def Plane_jump_def xp)
  ultimately have "\<not> pipe_hit p1 ob" if "ob \<in> set obs5" for ob
    using that by (fastforce simp add: pipe_hit_def x_overlap_def)
  then have "dropWhile (\<lambda>ob. \<not> pipe_hit p1 ob) obs5 = []" by simp
  then have over: "\<not> isGameOver g'" using g'(3) ng g1(1) by simp
  have r': "reachable g'"
    by (rule reach_step [OF r1, of "Frame (1 / 2)"]) (simp_all add: loop_def g'(1))
  from r' over g'(2) g1(3) show ?thesis by auto
qed

lemma running_state_at_frame:
  "n \<le> 102 \<Longrightarrow> \<exists>g. reachable g \<and> \<not> isGameOver g \<and> frameCount g = n + 1"
proof (induction n)
  case 0
  have s: "startGame (1 / 2) idle_game = Inr (projr (startGame (1 / 2) idle_game))"
    by (simp add: startGame_result)
  have "reachable (projr (startGame (1 / 2) idle_game))"
    by (rule reach_start [OF _ _ s]) simp_all
  then show ?case by (intro exI [of _ "projr (startGame (1 / 2) idle_game)"]) (simp add: startGame_result)
next
  case (Suc n)
  then obtain g where "reachable g" "\<not> isGameOver g" "frameCount g = n + 1" by auto
  with hover_one_frame [of g] Suc.prems show ?case by auto
qed

lemma two_obstacles_reachable:
  "\<exists>g. reachable g \<and> \<not> isGameOver g \<and> frameCount g = 91 \<and> length (obstacles g) = 2"
proof -
  from running_state_at_frame [of 90] obtain g where
    g: "reachable g" "\<not> isGameOver g" "frameCount g = 91" by auto
  from reachable_run_inv [OF g(1)] obtain q k :: nat where
    k: "k < 90" and fc: "frameCount g = 90 * q + k + 1" and
    xs: "map x (obstacles g) =
           (if 1 \<le> q \<and> k \<le> 59 then [127 - 3 * real k] else []) @ [397 - 3 * real k]"
    unfolding run_inv_def by blast
  from g(3) fc k have "q = 1 \<and> k = 0" by presburger
  with xs have "length (map x (obstacles g)) = 2" by simp
  then have "length (obstacles g) = 2" by simp
  with g show ?thesis by blast
qed

subsection \<open>The overall best score over a run\<close>

lemma pipe_hit_mark_passed [simp]: "pipe_hit p (mark_passed q ob) = pipe_hit p ob"
  by (simp add: pipe_hit_def mark_passed_def x_overlap_def top_collision_def
      bottom_collision_def)

lemma bottomY_mark_passed [simp]: "bottomY (mark_passed q ob) = bottomY ob"
  by (simp add: mark_passed_def)

lemma bottomY_Obstacle_new:
  assumes "0 \<le> r" and "r < 1"
  shows "bottomY (Obstacle_new r) \<le> 520"
proof -
  have "bottomY (Obstacle_new r) = real_of_int \<lfloor>r * 331\<rfloor> + 190"
    by (simp add: Obstacle_new_def settings Let_def)
  moreover from floor_random_bounds [OF assms] have "real_of_int \<lfloor>r * 331\<rfloor> \<le> 330"
    by linarith
  ultimately show ?thesis by simp
qed

lemma score_le_bestScore_gameOver:
  "\<not> isGameOver g \<Longrightarrow> score (gameOver g) \<le> bestScore (gameOver g)"
  by (simp add: gameOver_bestScore_max)

text \<open>
  A falling plane cannot cross the 50 pixels from the lowest gap to the ground in one
  frame: its speed stays below 18.
\<close>

lemma fall_energy:
  fixes v yy :: real
  assumes "0 \<le> yy" and "0 < v \<longrightarrow> v\<^sup>2 + 3 / 10 * v \<le> 6 / 10 * yy"
    and "0 < v + 3 / 10"
  shows "(v + 3 / 10)\<^sup>2 + 3 / 10 * (v + 3 / 10) \<le> 6 / 10 * (yy + (v + 3 / 10))"
proof (cases "0 < v")
  case True
  with assms(2) have e: "v\<^sup>2 + 3 / 10 * v \<le> 6 / 10 * yy" by blast
  have "(v + 3 / 10)\<^sup>2 + 3 / 10 * (v + 3 / 10) = (v\<^sup>2 + 3 / 10 * v) + 6 / 10 * (v + 3 / 10)"
    by (simp add: power2_eq_square algebra_simps)
  also have "\<dots> \<le> 6 / 10 * yy + 6 / 10 * (v + 3 / 10)" using e by (rule add_right_mono)
  also have "\<dots> = 6 / 10 * (yy + (v + 3 / 10))" by (simp add: algebra_simps)
  finally show ?thesis .
next
  case False
  define w where "w = v + 3 / 10"
  have w: "0 < w" "w \<le> 3 / 10" using False assms(3) by (simp_all add: w_def)
  have "w * w \<le> 3 / 10 * w" using w by (intro mult_right_mono) simp_all
  then have "w\<^sup>2 + 3 / 10 * w \<le> 6 / 10 * w" by (simp add: power2_eq_square)
  also have "\<dots> \<le> 6 / 10 * (yy + w)" using assms(1) by simp
  finally show ?thesis unfolding w_def .
qed

lemma speed_bound:
  fixes v yy :: real
  assumes "yy \<le> 540" and "0 < v \<longrightarrow> v\<^sup>2 + 3 / 10 * v \<le> 6 / 10 * yy"
  shows "v < 18"
proof (rule ccontr)
  assume "\<not> v < 18"
  then have v: "18 \<le> v" by simp
  then have "18 * 18 \<le> v * v" by (intro mult_mono) simp_all
  then have "324 \<le> v\<^sup>2" by (simp add: power2_eq_square)
  moreover have "v\<^sup>2 + 3 / 10 * v \<le> 324" using assms v by simp
  ultimately show False using v by simp
qed


lemma not_multiple_of_3:
  fixes k :: nat
  shows "3 * real k \<noteq> 127" and "3 * real k \<noteq> 397"
proof -
  have "3 * k \<noteq> 127" and "3 * k \<noteq> 397" by presburger+
  then have "real (3 * k) \<noteq> real 127" and "real (3 * k) \<noteq> real 397"
    unfolding of_nat_eq_iff by simp_all
  then show "3 * real k \<noteq> 127" and "3 * real k \<noteq> 397" by simp_all
qed

lemma flight_inv_update:
  assumes r: "reachable g" and inv: "flight_inv g" and rr: "0 \<le> r" "r < 1"
    and upd: "update r g = Inr g'"
  shows "flight_inv g'"
proof (cases "isGameOver g")
  case True
  then have "g' = g" using upd by (simp add: update_def)
  then show ?thesis using inv by simp
next
  case False
  from inv False obtain p where
    p: "plane g = Some p" and h: "height p = 30" and y0: "0 \<le> y p" and y1: "y p \<le> 540" and
    en: "0 < velocity p \<longrightarrow> (velocity p)\<^sup>2 + 3 / 10 * velocity p \<le> 6 / 10 * y p" and
    bo: "\<forall>ob \<in> set (obstacles g). bottomY ob \<le> 520" and
    nh: "\<forall>ob \<in> set (obstacles g). \<not> pipe_hit p ob"
    unfolding flight_inv_def by blast
  from reachable_run_inv [OF r] obtain p0 and q k :: nat where
    p0: "plane g = Some p0" "x p0 = 50" "width p0 = 40" and
    xs: "map x (obstacles g) =
           (if 1 \<le> q \<and> k \<le> 59 then [127 - 3 * real k] else []) @ [397 - 3 * real k]" and
    fl: "\<forall>ob \<in> set (obstacles g). width ob = 50 \<and> (passed ob \<longleftrightarrow> x ob < 0)"
    unfolding run_inv_def by blast
  have xp: "x p = 50" and wp: "width p = 40" using p p0 by simp_all
  define p1 where "p1 = fst (Plane_update p g)"
  define obs5 where "obs5 = filter (\<lambda>ob. \<not> off_screen ob)
     (map Obstacle_update
        (obstacles g @ (if frameCount g mod PIPE_SPAWN_INTERVAL = 0 then [Obstacle_new r] else [])))"
  define pre where "pre = takeWhile (\<lambda>ob. \<not> pipe_hit p1 ob) obs5"
  define suf where "suf = dropWhile (\<lambda>ob. \<not> pipe_hit p1 ob) obs5"
  define g6 where "g6 = (snd (Plane_update p g))\<lparr> plane := Some p1,
                    frameCount := frameCount g + 1, obstacles := obs5,
                    score := score g + length (filter (newly_passed p1) pre) \<rparr>"
  have g': "g' = (if suf \<noteq> [] then gameOver g6 else g6)
                   \<lparr> obstacles := map (mark_passed p1) pre @ suf \<rparr>"
    using update_running_state [OF False p, of r] upd
    unfolding p1_def obs5_def pre_def suf_def g6_def by simp
  have pl: "plane g' = Some p1" by (simp add: g' g6_def)
  have p1x: "x p1 = 50" "width p1 = 40" "height p1 = 30" by (simp_all add: p1_def xp wp h)
  define v1 where "v1 = velocity p + 3 / 10"
  have ground: "isGameOver (snd (Plane_update p g)) \<longleftrightarrow> y p + v1 > 540"
    using False h
    by (simp add: Plane_update_snd settings isGameOver_gameOver v1_def add.assoc)
  have vel: "velocity p1 = (if y p + v1 > 540 \<or> y p + v1 < 0 then 0 else v1)"
    and yy: "y p1 = (if y p + v1 > 540 then 540 else if y p + v1 < 0 then 0 else y p + v1)"
    using h by (auto simp add: p1_def Plane_update_fst Let_def settings v1_def)
  have yb: "0 \<le> y p1" "y p1 \<le> 540" unfolding yy by auto
  have en1: "0 < velocity p1 \<longrightarrow> (velocity p1)\<^sup>2 + 3 / 10 * velocity p1 \<le> 6 / 10 * y p1"
  proof
    assume pos: "0 < velocity p1"
    then have nc: "\<not> (y p + v1 > 540 \<or> y p + v1 < 0)" and vv: "velocity p1 = v1" "0 < v1"
      using vel by (auto split: if_splits)
    then have "y p1 = y p + v1" using yy by simp
    with fall_energy [OF y0 en] vv show "(velocity p1)\<^sup>2 + 3 / 10 * velocity p1 \<le> 6 / 10 * y p1"
      by (simp add: v1_def)
  qed
  have mem5: "\<exists>ob0. ob = Obstacle_update ob0 \<and>
                (ob0 \<in> set (obstacles g) \<or> ob0 = Obstacle_new r)"
    if "ob \<in> set obs5" for ob
    using that unfolding obs5_def by (auto split: if_splits)
  have set5: "set pre \<union> set suf = set obs5"
  proof -
    have "set (pre @ suf) = set obs5" unfolding pre_def suf_def by (simp only: takeWhile_dropWhile_id)
    then show ?thesis by simp
  qed
  have bo5: "bottomY ob \<le> 520" if "ob \<in> set obs5" for ob
    using mem5 [OF that] bo bottomY_Obstacle_new [OF rr] by auto
  have sub5: "ob \<in> set obs5" if "ob \<in> set pre \<or> ob \<in> set suf" for ob
    using that set5 by blast
  have bo': "\<forall>ob \<in> set (obstacles g'). bottomY ob \<le> 520"
  proof
    fix ob assume "ob \<in> set (obstacles g')"
    then have "(\<exists>ob1 \<in> set pre. ob = mark_passed p1 ob1) \<or> ob \<in> set suf"
      by (auto simp add: g' g6_def)
    then show "bottomY ob \<le> 520" using bo5 sub5 by auto
  qed
  have over: "isGameOver g' \<longleftrightarrow> isGameOver (snd (Plane_update p g)) \<or> suf \<noteq> []"
    by (simp add: g' g6_def isGameOver_gameOver)
  have nhpre: "\<not> pipe_hit p1 ob" if "ob \<in> set pre" for ob
    using that unfolding pre_def by (auto dest: set_takeWhileD)
  have nh': "\<not> isGameOver g' \<longrightarrow> (\<forall>ob \<in> set (obstacles g'). \<not> pipe_hit p1 ob)"
    using over nhpre by (auto simp add: g' g6_def)
  have sc': "isGameOver g' \<longrightarrow> score g' \<le> bestScore g'"
  proof (cases "isGameOver (snd (Plane_update p g))")
    case True
    then have gr: "y p + v1 > 540" using ground by simp
    have sg: "snd (Plane_update p g) = gameOver g"
      using True False by (auto simp add: Plane_update_snd split: if_splits)
    have none: "\<not> newly_passed p1 ob" if "ob \<in> set pre" for ob
    proof
      assume np: "newly_passed p1 ob"
      from that set5 have "ob \<in> set obs5" by blast
      from mem5 [OF this] obtain ob0 where
        ob0: "ob = Obstacle_update ob0" "ob0 \<in> set (obstacles g) \<or> ob0 = Obstacle_new r"
        by blast
      from np have lt: "x ob0 - 3 + width ob0 < 50" and npd: "\<not> passed ob0"
        unfolding ob0(1) newly_passed_def using p1x by simp_all
      have "ob0 \<noteq> Obstacle_new r" using lt by auto
      with ob0(2) have in0: "ob0 \<in> set (obstacles g)" by simp
      then have w0: "width ob0 = 50" and x0: "0 \<le> x ob0" using fl npd by auto
      from in0 have "x ob0 \<in> set (map x (obstacles g))" by simp
      then have "x ob0 = 127 - 3 * real k \<or> x ob0 = 397 - 3 * real k"
        unfolding xs by (auto split: if_splits)
      then have "x ob0 \<noteq> 0" using not_multiple_of_3 [of k] by auto
      with x0 have xpos: "0 < x ob0" by simp
      have "x_overlap p ob0" using xpos lt w0 xp wp by (simp add: x_overlap_def)
      moreover have "\<not> pipe_hit p ob0" using nh in0 by simp
      ultimately have "\<not> bottom_collision p ob0" by (simp add: pipe_hit_def)
      then have "y p + 30 \<le> bottomY ob0" using h by (simp add: bottom_collision_def)
      moreover have "bottomY ob0 \<le> 520" using bo in0 by simp
      ultimately have "y p \<le> 490" by simp
      moreover have "velocity p < 18" using speed_bound [OF y1 en] .
      ultimately show False using gr by (simp add: v1_def)
    qed
    then have "filter (newly_passed p1) pre = []" by (simp add: filter_empty_conv)
    then have s6: "score g6 = score g" "isGameOver g6" "bestScore g6 = bestScore (gameOver g)"
      using True by (simp_all add: g6_def sg)
    have "score g \<le> bestScore (gameOver g)"
      using False by (simp add: gameOver_bestScore_max)
    then show ?thesis using s6 by (simp add: g' gameOver_def)
  next
    case ng: False
    then have n6: "\<not> isGameOver g6" by (simp add: g6_def)
    show ?thesis
    proof
      assume "isGameOver g'"
      then have "suf \<noteq> []" using over ng by simp
      then have "score g' = score (gameOver g6)" "bestScore g' = bestScore (gameOver g6)"
        by (simp_all add: g')
      then show "score g' \<le> bestScore g'"
        using score_le_bestScore_gameOver [OF n6] by simp
    qed
  qed
  show ?thesis
    unfolding flight_inv_def
    using pl p1x(3) yb en1 bo' nh' sc' by blast
qed


lemma flight_inv_startGame:
  assumes "0 \<le> r" and "r < 1" and "startGame r g0 = Inr g"
  shows "flight_inv g"
proof -
  have g: "g = g0\<lparr> plane := Some (Plane_new\<lparr> y := 3003 / 10, velocity := 3 / 10, tilt := 6 / 5 \<rparr>),
             obstacles := [(Obstacle_new r)\<lparr> x := 397 \<rparr>],
             score := 0, frameCount := 1, isGameOver := False,
             restartButton_display := ''none'' \<rparr>"
    using assms(3) by (simp add: startGame_result)
  have b: "bottomY ((Obstacle_new r)\<lparr> x := 397 \<rparr>) \<le> 520"
    using bottomY_Obstacle_new [OF assms(1,2)] by simp
  have n: "\<not> pipe_hit (Plane_new\<lparr> y := 3003 / 10, velocity := 3 / 10, tilt := 6 / 5 \<rparr>)
             ((Obstacle_new r)\<lparr> x := 397 \<rparr>)"
    by (simp add: pipe_hit_def x_overlap_def Plane_new_def)
  show ?thesis
    unfolding flight_inv_def
    by (rule exI [of _ "Plane_new\<lparr> y := 3003 / 10, velocity := 3 / 10, tilt := 6 / 5 \<rparr>"])
       (use b n in \<open>simp add: g Plane_new_def power2_eq_square\<close>)
qed

lemma gameOver_when_over: "isGameOver g \<Longrightarrow> gameOver g = g"
  by (simp add: gameOver_def)

lemma Plane_jump_simps [simp]:
  "x (Plane_jump p) = x p" "width (Plane_jump p) = width p" "y (Plane_jump p) = y p"
  "height (Plane_jump p) = height p" "velocity (Plane_jump p) = - 6"
  by (simp_all add: Plane_jump_def settings)

lemma pipe_hit_Plane_jump [simp]: "pipe_hit (Plane_jump p) ob = pipe_hit p ob"
  by (simp add: pipe_hit_def x_overlap_def top_collision_def bottom_collision_def Plane_jump_def)

lemma flight_inv_handleInput:
  assumes "flight_inv g" and "0 \<le> r" and "r < 1" and "handleInput r g = Inr g'"
  shows "flight_inv g'"
proof (cases "isGameOver g")
  case True
  then show ?thesis using assms flight_inv_startGame by (simp add: handleInput_def)
next
  case False
  from assms(1) False obtain p where
    p: "plane g = Some p" and h: "height p = 30" and y0: "0 \<le> y p" and y1: "y p \<le> 540" and
    bo: "\<forall>ob \<in> set (obstacles g). bottomY ob \<le> 520" and
    nh: "\<forall>ob \<in> set (obstacles g). \<not> pipe_hit p ob"
    unfolding flight_inv_def by blast
  have g': "g' = g\<lparr> plane := Some (Plane_jump p) \<rparr>"
    using assms(4) False p by (simp add: handleInput_def)
  show ?thesis
    unfolding flight_inv_def
    by (rule exI [of _ "Plane_jump p"])
       (use False h y0 y1 bo nh in \<open>simp add: g'\<close>)
qed

lemma reachable_flight_inv: "reachable g \<Longrightarrow> flight_inv g"
proof (induction rule: reachable.induct)
  case (reach_start r g0 g)
  then show ?case by (simp add: flight_inv_startGame)
next
  case (reach_step g e g')
  show ?case
  proof (cases e)
    case (Restart r)
    then show ?thesis using reach_step.hyps flight_inv_startGame by simp
  next
    case (Input r)
    then show ?thesis using reach_step.hyps reach_step.IH flight_inv_handleInput by simp
  next
    case (Frame r)
    then show ?thesis
      using reach_step.hyps reach_step.IH flight_inv_update by (simp add: loop_def)
  qed
qed

text \<open>
  Over the runs of the game, the overall best score is as C1 says: at the frame that
  ends a run it becomes the maximum of itself and the final score, in the variable and, when
  the variable agrees with the stored value, in the store; frames that do not end the run,
  jumps and restarts leave it alone. The player's key is written at the end of a run only
  when the final score beats the overall best.
\<close>

lemma game_over_score_saved:
  assumes "reachable g" and "isGameOver g"
  shows "score g \<le> bestScore g"
  using reachable_flight_inv [OF assms(1)] assms(2) unfolding flight_inv_def by blast

lemma run_end_bestScore:
  assumes r: "reachable g" and running: "\<not> isGameOver g" and rr: "0 \<le> r" "r < 1"
    and upd: "update r g = Inr g'" and over: "isGameOver g'"
  shows "bestScore g' = max (bestScore g) (score g')"
proof -
  from reachable_run_inv [OF r] obtain p where p: "plane g = Some p"
    unfolding run_inv_def by blast
  define p1 where "p1 = fst (Plane_update p g)"
  define obs5 where "obs5 = filter (\<lambda>ob. \<not> off_screen ob)
     (map Obstacle_update
        (obstacles g @ (if frameCount g mod PIPE_SPAWN_INTERVAL = 0 then [Obstacle_new r] else [])))"
  define pre where "pre = takeWhile (\<lambda>ob. \<not> pipe_hit p1 ob) obs5"
  define suf where "suf = dropWhile (\<lambda>ob. \<not> pipe_hit p1 ob) obs5"
  define g6 where "g6 = (snd (Plane_update p g))\<lparr> plane := Some p1,
                    frameCount := frameCount g + 1, obstacles := obs5,
                    score := score g + length (filter (newly_passed p1) pre) \<rparr>"
  have g': "g' = (if suf \<noteq> [] then gameOver g6 else g6)
                   \<lparr> obstacles := map (mark_passed p1) pre @ suf \<rparr>"
    using update_running_state [OF running p, of r] upd
    unfolding p1_def obs5_def pre_def suf_def g6_def by simp
  have "reachable g'"
    by (rule reach_step [OF r, of "Frame r"]) (simp_all add: rr loop_def upd)
  then have saved: "score g' \<le> bestScore g'" using over by (rule game_over_score_saved)
  have grow: "score g \<le> score g'" by (simp add: g' g6_def)
  show ?thesis
  proof (cases "isGameOver (snd (Plane_update p g))")
    case True
    then have sg: "snd (Plane_update p g) = gameOver g"
      using running by (auto simp add: Plane_update_snd split: if_splits)
    have o6: "isGameOver g6" using True by (simp add: g6_def)
    have "bestScore g' = bestScore g6"
      by (simp add: g' gameOver_when_over [OF o6])
    then have "bestScore g' = bestScore (gameOver g)"
      by (simp add: g6_def sg)
    then have "bestScore g' = max (bestScore g) (score g)"
      using running by (simp add: gameOver_bestScore_max)
    with saved grow show ?thesis by (simp add: max_def split: if_splits)
  next
    case False
    then have n6: "\<not> isGameOver g6" and sg: "snd (Plane_update p g) = g"
      by (auto simp add: g6_def Plane_update_snd isGameOver_gameOver split: if_splits)
    from over False have "suf \<noteq> []" by (auto simp add: g' g6_def split: if_splits)
    then have "bestScore g' = bestScore (gameOver g6)" "score g' = score g6"
      by (simp_all add: g')
    moreover have "bestScore g6 = bestScore g" by (simp add: g6_def sg)
    ultimately show ?thesis using gameOver_bestScore_max [OF n6] by simp
  qed
qed

lemma running_frame_keeps_best:
  assumes running: "\<not> isGameOver g" and upd: "update r g = Inr g'"
    and still: "\<not> isGameOver g'"
  shows "bestScore g' = bestScore g \<and> localStorage g' = localStorage g \<and>
         setItemLog g' = setItemLog g"
proof (cases "plane g")
  case None
  then show ?thesis using running upd by (simp add: update_def)
next
  case (Some p)
  define p1 where "p1 = fst (Plane_update p g)"
  define obs5 where "obs5 = filter (\<lambda>ob. \<not> off_screen ob)
     (map Obstacle_update
        (obstacles g @ (if frameCount g mod PIPE_SPAWN_INTERVAL = 0 then [Obstacle_new r] else [])))"
  define pre where "pre = takeWhile (\<lambda>ob. \<not> pipe_hit p1 ob) obs5"
  define suf where "suf = dropWhile (\<lambda>ob. \<not> pipe_hit p1 ob) obs5"
  define g6 where "g6 = (snd (Plane_update p g))\<lparr> plane := Some p1,
                    frameCount := frameCount g + 1, obstacles := obs5,
                    score := score g + length (filter (newly_passed p1) pre) \<rparr>"
  have g': "g' = (if suf \<noteq> [] then gameOver g6 else g6)
                   \<lparr> obstacles := map (mark_passed p1) pre @ suf \<rparr>"
    using update_running_state [OF running Some, of r] upd
    unfolding p1_def obs5_def pre_def suf_def g6_def by simp
  from still have s: "suf = []" and n6: "\<not> isGameOver g6"
    by (auto simp add: g' isGameOver_gameOver split: if_splits)
  from n6 have "\<not> isGameOver (snd (Plane_update p g))" by (simp add: g6_def)
  then have "snd (Plane_update p g) = g"
    by (auto simp add: Plane_update_snd isGameOver_gameOver split: if_splits)
  then show ?thesis by (simp add: g' s g6_def)
qed


lemma run_end_stored_overall:
  assumes r: "reachable g" and running: "\<not> isGameOver g" and rr: "0 \<le> r" "r < 1"
    and upd: "update r g = Inr g'" and over: "isGameOver g'"
    and sync: "getItem_or_0 (localStorage g) ''flappyPlaneBestScore'' = bestScore g"
  shows "getItem_or_0 (localStorage g') ''flappyPlaneBestScore'' = max (bestScore g) (score g')"
proof -
  from reachable_run_inv [OF r] obtain p where p: "plane g = Some p"
    unfolding run_inv_def by blast
  define p1 where "p1 = fst (Plane_update p g)"
  define obs5 where "obs5 = filter (\<lambda>ob. \<not> off_screen ob)
     (map Obstacle_update
        (obstacles g @ (if frameCount g mod PIPE_SPAWN_INTERVAL = 0 then [Obstacle_new r] else [])))"
  define pre where "pre = takeWhile (\<lambda>ob. \<not> pipe_hit p1 ob) obs5"
  define suf where "suf = dropWhile (\<lambda>ob. \<not> pipe_hit p1 ob) obs5"
  define g6 where "g6 = (snd (Plane_update p g))\<lparr> plane := Some p1,
                    frameCount := frameCount g + 1, obstacles := obs5,
                    score := score g + length (filter (newly_passed p1) pre) \<rparr>"
  have g': "g' = (if suf \<noteq> [] then gameOver g6 else g6)
                   \<lparr> obstacles := map (mark_passed p1) pre @ suf \<rparr>"
    using update_running_state [OF running p, of r] upd
    unfolding p1_def obs5_def pre_def suf_def g6_def by simp
  have best: "bestScore g' = max (bestScore g) (score g')"
    by (rule run_end_bestScore [OF r running rr upd over])
  show ?thesis
  proof (cases "isGameOver (snd (Plane_update p g))")
    case True
    then have sg: "snd (Plane_update p g) = gameOver g"
      using running by (auto simp add: Plane_update_snd split: if_splits)
    have o6: "isGameOver g6" using True by (simp add: g6_def)
    have "localStorage g' = localStorage g6" "bestScore g' = bestScore g6"
      by (simp_all add: g' gameOver_when_over [OF o6])
    then have "localStorage g' = localStorage (gameOver g)"
      "bestScore g' = bestScore (gameOver g)"
      by (simp_all add: g6_def sg)
    then have "getItem_or_0 (localStorage g') ''flappyPlaneBestScore'' = bestScore g'"
      using gameOver_stored_overall_max [OF running sync] gameOver_bestScore_max [OF running]
      by simp
    with best show ?thesis by simp
  next
    case False
    then have n6: "\<not> isGameOver g6" and sg: "snd (Plane_update p g) = g"
      by (auto simp add: g6_def Plane_update_snd isGameOver_gameOver split: if_splits)
    from over False have "suf \<noteq> []" by (auto simp add: g' g6_def split: if_splits)
    then have a: "localStorage g' = localStorage (gameOver g6)" "score g' = score g6"
      by (simp_all add: g')
    have s6: "getItem_or_0 (localStorage g6) ''flappyPlaneBestScore'' = bestScore g6"
      "bestScore g6 = bestScore g"
      using sync by (simp_all add: g6_def sg)
    from gameOver_stored_overall_max [OF n6 s6(1)] a s6(2) show ?thesis by simp
  qed
qed

lemma jump_keeps_best:
  assumes "\<not> isGameOver g" and "handleInput r g = Inr g'"
  shows "bestScore g' = bestScore g \<and> localStorage g' = localStorage g \<and>
         setItemLog g' = setItemLog g \<and> score g' = score g"
  using assms by (auto simp add: handleInput_def split: option.splits)

lemma startGame_keeps_best:
  assumes "startGame r g = Inr g'"
  shows "bestScore g' = bestScore g \<and> localStorage g' = localStorage g \<and>
         setItemLog g' = setItemLog g \<and> bestPlayerScore g' = bestPlayerScore g"
  using assms by (auto simp add: startGame_result)


lemma run_end_stored_player:
  assumes r: "reachable g" and running: "\<not> isGameOver g" and rr: "0 \<le> r" "r < 1"
    and upd: "update r g = Inr g'" and over: "isGameOver g'"
  shows "localStorage g' (getPlayerScoreKey (playerName g))
           = (if score g' > bestScore g then Some (score g')
              else localStorage g (getPlayerScoreKey (playerName g)))"
proof -
  from reachable_run_inv [OF r] obtain p where p: "plane g = Some p"
    unfolding run_inv_def by blast
  define p1 where "p1 = fst (Plane_update p g)"
  define obs5 where "obs5 = filter (\<lambda>ob. \<not> off_screen ob)
     (map Obstacle_update
        (obstacles g @ (if frameCount g mod PIPE_SPAWN_INTERVAL = 0 then [Obstacle_new r] else [])))"
  define pre where "pre = takeWhile (\<lambda>ob. \<not> pipe_hit p1 ob) obs5"
  define suf where "suf = dropWhile (\<lambda>ob. \<not> pipe_hit p1 ob) obs5"
  define g6 where "g6 = (snd (Plane_update p g))\<lparr> plane := Some p1,
                    frameCount := frameCount g + 1, obstacles := obs5,
                    score := score g + length (filter (newly_passed p1) pre) \<rparr>"
  have g': "g' = (if suf \<noteq> [] then gameOver g6 else g6)
                   \<lparr> obstacles := map (mark_passed p1) pre @ suf \<rparr>"
    using update_running_state [OF running p, of r] upd
    unfolding p1_def obs5_def pre_def suf_def g6_def by simp
  have best: "bestScore g' = max (bestScore g) (score g')"
    by (rule run_end_bestScore [OF r running rr upd over])
  have grow: "score g \<le> score g'" by (simp add: g' g6_def)
  show ?thesis
  proof (cases "isGameOver (snd (Plane_update p g))")
    case True
    then have sg: "snd (Plane_update p g) = gameOver g"
      using running by (auto simp add: Plane_update_snd split: if_splits)
    have o6: "isGameOver g6" using True by (simp add: g6_def)
    have "localStorage g' = localStorage g6" "bestScore g' = bestScore g6"
      by (simp_all add: g' gameOver_when_over [OF o6])
    then have a: "localStorage g' = localStorage (gameOver g)"
      "bestScore g' = max (bestScore g) (score g)"
      using gameOver_bestScore_max [OF running] by (simp_all add: g6_def sg)
    from a(2) best grow have "score g' > bestScore g \<longleftrightarrow> score g > bestScore g"
      "score g > bestScore g \<longrightarrow> score g' = score g"
      by (auto simp add: max_def split: if_splits)
    then show ?thesis using gameOver_stored_player [OF running] a(1) by auto
  next
    case False
    then have n6: "\<not> isGameOver g6" and sg: "snd (Plane_update p g) = g"
      by (auto simp add: g6_def Plane_update_snd isGameOver_gameOver split: if_splits)
    from over False have "suf \<noteq> []" by (auto simp add: g' g6_def split: if_splits)
    then have a: "localStorage g' = localStorage (gameOver g6)" "score g' = score g6"
      by (simp_all add: g')
    have s6: "playerName g6 = playerName g" "bestScore g6 = bestScore g"
      "localStorage g6 = localStorage g"
      by (simp_all add: g6_def sg)
    from gameOver_stored_player [OF n6] a s6 show ?thesis by simp
  qed
qed

subsection \<open>The example run stays alive\<close>

lemma glide_arith:
  fixes v yy :: real
  assumes "yy < 300" and "1458 / 10 \<le> 6 / 10 * yy - v\<^sup>2 - 3 / 10 * v"
  shows "v < 57 / 10"
    and "242 \<le> yy + (v + 3 / 10)"
    and "6 / 10 * (yy + (v + 3 / 10)) - (v + 3 / 10)\<^sup>2 - 3 / 10 * (v + 3 / 10)
           = 6 / 10 * yy - v\<^sup>2 - 3 / 10 * v"
proof -
  show e: "6 / 10 * (yy + (v + 3 / 10)) - (v + 3 / 10)\<^sup>2 - 3 / 10 * (v + 3 / 10)
           = 6 / 10 * yy - v\<^sup>2 - 3 / 10 * v"
    by (simp add: power2_eq_square algebra_simps)
  show "v < 57 / 10"
  proof (rule ccontr)
    assume "\<not> v < 57 / 10"
    then have v: "57 / 10 \<le> v" by simp
    then have "57 / 10 * (57 / 10) \<le> v * v" by (intro mult_mono) simp_all
    then have "3249 / 100 \<le> v\<^sup>2" by (simp add: power2_eq_square)
    with v assms show False by simp
  qed
  define w where "w = v + 3 / 10"
  have "0 \<le> (w + 15 / 100)\<^sup>2" by simp
  also have "(w + 15 / 100)\<^sup>2 = w\<^sup>2 + 3 / 10 * w + 225 / 10000"
    by (simp add: power2_eq_square algebra_simps)
  finally have sq: "- (225 / 10000) \<le> w\<^sup>2 + 3 / 10 * w" by simp
  have "6 / 10 * (yy + w) = (6 / 10 * (yy + w) - w\<^sup>2 - 3 / 10 * w) + (w\<^sup>2 + 3 / 10 * w)"
    by simp
  also have "\<dots> = (6 / 10 * yy - v\<^sup>2 - 3 / 10 * v) + (w\<^sup>2 + 3 / 10 * w)"
    using e by (simp add: w_def)
  finally have "6 / 10 * (yy + w) \<ge> 1458 / 10 - 225 / 10000"
    using assms(2) sq by linarith
  then show "242 \<le> yy + (v + 3 / 10)" by (simp add: w_def)
qed


lemma Plane_update_free:
  assumes "height p = 30" and "0 \<le> y p + (velocity p + 3 / 10)"
    and "y p + (velocity p + 3 / 10) \<le> 540"
  shows "y (fst (Plane_update p g)) = y p + (velocity p + 3 / 10)"
    and "velocity (fst (Plane_update p g)) = velocity p + 3 / 10"
    and "snd (Plane_update p g) = g"
  using assms by (simp_all add: Plane_update_fst Plane_update_snd Let_def settings)

lemma pilot_plane_step:
  fixes p :: plane and g :: game
  assumes h: "height p = 30" and lo: "242 \<le> y p" and hi: "y p < 306"
    and en: "y p < 300 \<longrightarrow> 1458 / 10 \<le> 6 / 10 * y p - (velocity p)\<^sup>2 - 3 / 10 * velocity p"
  defines "p0 \<equiv> (if 300 \<le> y p then Plane_jump p else p)"
  defines "p1 \<equiv> fst (Plane_update p0 g)"
  shows "snd (Plane_update p0 g) = g" and "242 \<le> y p1" and "y p1 < 306"
    and "1458 / 10 \<le> 6 / 10 * y p1 - (velocity p1)\<^sup>2 - 3 / 10 * velocity p1"
proof -
  have h0: "height p0 = 30" and y0: "y p0 = y p" by (simp_all add: p0_def h)
  have bounds: "242 \<le> y p0 + (velocity p0 + 3 / 10) \<and> y p0 + (velocity p0 + 3 / 10) < 306 \<and>
            1458 / 10 \<le> 6 / 10 * (y p0 + (velocity p0 + 3 / 10))
               - (velocity p0 + 3 / 10)\<^sup>2 - 3 / 10 * (velocity p0 + 3 / 10)"
  proof (cases "300 \<le> y p")
    case True
    then have v: "velocity p0 + 3 / 10 = - (57 / 10)" by (simp add: p0_def)
    have sq: "(- (57 / 10) :: real)\<^sup>2 = 3249 / 100" by (simp add: power2_eq_square)
    have "242 \<le> y p + - (57 / 10)" "y p + - (57 / 10) < 306"
      "1458 / 10 \<le> 6 / 10 * (y p + - (57 / 10)) - 3249 / 100 - 3 / 10 * - (57 / 10)"
      using True hi by (simp_all add: algebra_simps)
    then show ?thesis unfolding v y0 sq by blast
  next
    case False
    then have v: "velocity p0 = velocity p" and less: "y p < 300" by (simp_all add: p0_def)
    from en less have e: "1458 / 10 \<le> 6 / 10 * y p - (velocity p)\<^sup>2 - 3 / 10 * velocity p"
      by simp
    note ga = glide_arith [OF less e]
    have "y p + (velocity p + 3 / 10) < 306" using ga(1) less by simp
    then show ?thesis using ga(2) e unfolding v y0 ga(3) by simp
  qed
  then have free: "0 \<le> y p0 + (velocity p0 + 3 / 10)" "y p0 + (velocity p0 + 3 / 10) \<le> 540"
    by simp_all
  note pf = Plane_update_free [OF h0 free, of g]
  show "snd (Plane_update p0 g) = g" by (rule pf(3))
  show "242 \<le> y p1" "y p1 < 306"
    "1458 / 10 \<le> 6 / 10 * y p1 - (velocity p1)\<^sup>2 - 3 / 10 * velocity p1"
    unfolding p1_def pf(1) pf(2) using bounds by simp_all
qed

lemma topHeight_mark_passed [simp]: "topHeight (mark_passed q ob) = topHeight ob"
  by (simp add: mark_passed_def)

lemma Obstacle_new_half [simp]:
  "topHeight (Obstacle_new (1 / 2)) = 215" "bottomY (Obstacle_new (1 / 2)) = 355"
  by (simp_all add: Obstacle_new_def settings Let_def)

lemma pilot_step:
  assumes inv: "pilot_inv g"
  shows "\<exists>g'. pilot_frame g = Inr g' \<and> pilot_inv g' \<and> frameCount g' = frameCount g + 1"
proof -
  from inv obtain p where
    r: "reachable g" and run: "\<not> isGameOver g" and p: "plane g = Some p" and
    h: "height p = 30" and lo: "242 \<le> y p" and hi: "y p < 306" and
    en: "y p < 300 \<longrightarrow> 1458 / 10 \<le> 6 / 10 * y p - (velocity p)\<^sup>2 - 3 / 10 * velocity p" and
    gap: "\<forall>ob \<in> set (obstacles g). topHeight ob = 215 \<and> bottomY ob = 355"
    unfolding pilot_inv_def by blast
  define p0 where "p0 = (if 300 \<le> y p then Plane_jump p else p)"
  define g1 where "g1 = g\<lparr> plane := Some p0 \<rparr>"
  have g1: "\<not> isGameOver g1" "plane g1 = Some p0" "frameCount g1 = frameCount g"
    "obstacles g1 = obstacles g"
    using run by (simp_all add: g1_def)
  have same: "g\<lparr> plane := Some p \<rparr> = g" using p [symmetric] by simp
  have pf: "pilot_frame g = update (1 / 2) g1"
    using p run by (simp add: pilot_frame_def handleInput_def loop_def g1_def p0_def same)
  have r1: "reachable g1"
  proof (cases "300 \<le> y p")
    case True
    then have "handleInput (1 / 2) g = Inr g1"
      using p run by (simp add: handleInput_def g1_def p0_def)
    then show ?thesis
      by (intro reach_step [OF r, of "Input (1 / 2)"]) simp_all
  next
    case False
    then have "g1 = g" using same by (simp add: g1_def p0_def)
    then show ?thesis using r by simp
  qed
  define p1 where "p1 = fst (Plane_update p0 g1)"
  define obs5 where "obs5 = filter (\<lambda>ob. \<not> off_screen ob)
     (map Obstacle_update
        (obstacles g1 @ (if frameCount g1 mod PIPE_SPAWN_INTERVAL = 0
                         then [Obstacle_new (1 / 2)] else [])))"
  note ps = pilot_plane_step [OF h lo hi en, of g1, folded p0_def, folded p1_def]
  from update_running [OF g1(1) g1(2), of "1 / 2"] obtain g' where
    g': "update (1 / 2) g1 = Inr g'" "plane g' = Some p1" "frameCount g' = frameCount g1 + 1"
      "obstacles g' = map (mark_passed p1) (takeWhile (\<lambda>ob. \<not> pipe_hit p1 ob) obs5)
                        @ dropWhile (\<lambda>ob. \<not> pipe_hit p1 ob) obs5"
      "isGameOver g' \<longleftrightarrow> isGameOver (snd (Plane_update p0 g1))
          \<or> dropWhile (\<lambda>ob. \<not> pipe_hit p1 ob) obs5 \<noteq> []"
    unfolding p1_def obs5_def by blast
  have h1: "height p1 = 30" by (simp add: p1_def p0_def h)
  have gap5: "topHeight ob = 215 \<and> bottomY ob = 355" if "ob \<in> set obs5" for ob
    using that gap unfolding obs5_def g1 by (auto split: if_splits)
  have nohit: "\<not> pipe_hit p1 ob" if "ob \<in> set obs5" for ob
    using gap5 [OF that] ps(2,3) h1
    by (simp add: pipe_hit_def top_collision_def bottom_collision_def)
  then have dw: "dropWhile (\<lambda>ob. \<not> pipe_hit p1 ob) obs5 = []"
    and tw: "takeWhile (\<lambda>ob. \<not> pipe_hit p1 ob) obs5 = obs5"
    by (simp_all add: takeWhile_eq_all_conv)
  have run': "\<not> isGameOver g'" using g'(5) ps(1) g1(1) dw by simp
  have obs': "obstacles g' = map (mark_passed p1) obs5" using g'(4) dw tw by simp
  have gap': "\<forall>ob \<in> set (obstacles g'). topHeight ob = 215 \<and> bottomY ob = 355"
    using gap5 by (auto simp add: obs')
  have r': "reachable g'"
    by (rule reach_step [OF r1, of "Frame (1 / 2)"]) (simp_all add: loop_def g'(1))
  have "pilot_inv g'"
    unfolding pilot_inv_def using r' run' g'(2) h1 ps(2,3,4) gap' by blast
  with pf g'(1,3) g1(3) show ?thesis by simp
qed


lemma pilot_inv_start: "pilot_inv (projr (startGame (1 / 2) idle_game))"
proof -
  have s: "startGame (1 / 2) idle_game = Inr (projr (startGame (1 / 2) idle_game))"
    by (simp add: startGame_result)
  have r: "reachable (projr (startGame (1 / 2) idle_game))"
    by (rule reach_start [OF _ _ s]) simp_all
  show ?thesis
    unfolding pilot_inv_def
    using r by (simp add: startGame_result Plane_new_def)
qed

lemma pilot_run_inv:
  "\<exists>g. pilot_run n (projr (startGame (1 / 2) idle_game)) = Inr g \<and> pilot_inv g \<and>
        frameCount g = n + 1"
proof (induction n)
  case 0
  show ?case using pilot_inv_start by (simp add: startGame_result)
next
  case (Suc n)
  then obtain g where g: "pilot_run n (projr (startGame (1 / 2) idle_game)) = Inr g"
    "pilot_inv g" "frameCount g = n + 1" by blast
  from pilot_step [OF g(2)] obtain g' where
    "pilot_frame g = Inr g'" "pilot_inv g'" "frameCount g' = frameCount g + 1" by blast
  then show ?case using g by simp
qed

lemma flown_game_facts:
  "reachable (flown_game n)" "\<not> isGameOver (flown_game n)" "frameCount (flown_game n) = n + 1"
  "plane (flown_game n) = Some (the (plane (flown_game n)))"
proof -
  from pilot_run_inv [of n] obtain g where
    g: "pilot_run n (projr (startGame (1 / 2) idle_game)) = Inr g" "pilot_inv g"
       "frameCount g = n + 1" by blast
  then have f: "flown_game n = g" by (simp add: flown_game_def)
  from g(2) show "reachable (flown_game n)" "\<not> isGameOver (flown_game n)"
    "plane (flown_game n) = Some (the (plane (flown_game n)))"
    unfolding f pilot_inv_def by auto
  show "frameCount (flown_game n) = n + 1" using g(3) f by simp
qed

lemma run_inv_at:
  fixes q k :: nat
  assumes "run_inv g" and "frameCount g = 90 * q + k + 1" and "k < 90"
  shows "map x (obstacles g) =
           (if 1 \<le> q \<and> k \<le> 59 then [127 - 3 * real k] else []) @ [397 - 3 * real k]"
    and "map passed (obstacles g) = map (\<lambda>v. v < 0) (map x (obstacles g))"
    and "score g = (if 43 \<le> k then q else q - 1)"
proof -
  from assms(1) obtain q' k' :: nat where
    k': "k' < 90" and fc: "frameCount g = 90 * q' + k' + 1" and
    xs: "map x (obstacles g) =
           (if 1 \<le> q' \<and> k' \<le> 59 then [127 - 3 * real k'] else []) @ [397 - 3 * real k']" and
    fl: "\<forall>ob \<in> set (obstacles g). width ob = 50 \<and> (passed ob \<longleftrightarrow> x ob < 0)" and
    sc: "score g = (if 43 \<le> k' then q' else q' - 1)"
    unfolding run_inv_def by blast
  from fc assms(2) have e: "90 * q' + k' = 90 * q + k" by simp
  then have "(90 * q' + k') div 90 = (90 * q + k) div 90" by simp
  then have "q' = q" using k' assms(3) by simp
  with e have "q' = q \<and> k' = k" by simp
  with xs sc show "map x (obstacles g) =
           (if 1 \<le> q \<and> k \<le> 59 then [127 - 3 * real k] else []) @ [397 - 3 * real k]"
    "score g = (if 43 \<le> k then q else q - 1)" by simp_all
  show "map passed (obstacles g) = map (\<lambda>v. v < 0) (map x (obstacles g))"
    using fl by simp
qed

lemma frame_of_running:
  assumes "reachable g" and "\<not> isGameOver g" and "0 \<le> r" and "r < 1"
  shows "update r g = Inr (projr (update r g))" and "reachable (projr (update r g))"
    and "frameCount (projr (update r g)) = frameCount g + 1"
proof -
  from reachable_run_inv [OF assms(1)] obtain p where p: "plane g = Some p"
    unfolding run_inv_def by blast
  from update_running [OF assms(2) p, of r] obtain g' where
    g': "update r g = Inr g'" "frameCount g' = frameCount g + 1" by blast
  then show u: "update r g = Inr (projr (update r g))"
    and "frameCount (projr (update r g)) = frameCount g + 1" by simp_all
  show "reachable (projr (update r g))"
    by (rule reach_step [OF assms(1), of "Frame r"]) (use assms(3,4) u in \<open>simp_all add: loop_def\<close>)
qed

lemma frame_of_reachable:
  assumes "reachable g" and "0 \<le> r" and "r < 1"
  shows "update r g = Inr (projr (update r g)) \<and> reachable (projr (update r g)) \<and>
         (frameCount (projr (update r g)) = frameCount g
          \<or> frameCount (projr (update r g)) = frameCount g + 1)"
proof (cases "isGameOver g")
  case True
  then have u: "update r g = Inr g" by (simp add: update_def)
  show ?thesis using assms(1) by (simp add: u)
next
  case False
  note f = frame_of_running [OF assms(1) False assms(2,3)]
  show ?thesis using f by simp
qed

lemma passed_count:
  fixes n :: nat
  shows "card {j. 90 * j + 134 \<le> n} = (n - 44) div 90"
proof -
  have "(90 * j + 134 \<le> n) = (j < (n - 44) div 90)" for j :: nat
  proof -
    have "(j < (n - 44) div 90) = (Suc j \<le> (n - 44) div 90)" by (simp add: Suc_le_eq)
    also have "\<dots> = (Suc j * 90 \<le> n - 44)" by (simp add: less_eq_div_iff_mult_less_eq)
    also have "\<dots> = (90 * j + 134 \<le> n)" by (simp, linarith)
    finally show ?thesis by simp
  qed
  then have "{j. 90 * j + 134 \<le> n} = {..< (n - 44) div 90}" by auto
  then show ?thesis by simp
qed

subsection \<open>The number of obstacles\<close>

lemma marks_related_weak:
  "list_all2 (\<lambda>ob ob'. ob' = ob \<or> ob' = ob\<lparr> passed := True \<rparr>)
     (pre @ suf) (map (mark_passed p) pre @ suf)"
  by (rule list_all2_mono [OF marks_related [of p pre suf]]) (auto split: if_splits)

lemma frame_obstacles:
  assumes "\<not> isGameOver g" and "plane g = Some p" and "update r g = Inr g'"
  shows "list_all2 (\<lambda>ob ob'. ob' = ob \<or> ob' = ob\<lparr> passed := True \<rparr>)
           (filter (\<lambda>ob. \<not> x ob + width ob < 0)
              (map Obstacle_update
                 (obstacles g @ (if frameCount g mod PIPE_SPAWN_INTERVAL = 0
                                 then [Obstacle_new r] else []))))
           (obstacles g')"
proof -
  define p1 where "p1 = fst (Plane_update p g)"
  define obs5 where "obs5 = filter (\<lambda>ob. \<not> off_screen ob)
     (map Obstacle_update
        (obstacles g @ (if frameCount g mod PIPE_SPAWN_INTERVAL = 0 then [Obstacle_new r] else [])))"
  from update_running [OF assms(1,2), of r] assms(3)
  have "obstacles g' = map (mark_passed p1) (takeWhile (\<lambda>ob. \<not> pipe_hit p1 ob) obs5)
                        @ dropWhile (\<lambda>ob. \<not> pipe_hit p1 ob) obs5"
    unfolding p1_def obs5_def by auto
  moreover have "obs5 = takeWhile (\<lambda>ob. \<not> pipe_hit p1 ob) obs5
                        @ dropWhile (\<lambda>ob. \<not> pipe_hit p1 ob) obs5" by simp
  ultimately have "list_all2 (\<lambda>ob ob'. ob' = ob \<or> ob' = ob\<lparr> passed := True \<rparr>)
                     obs5 (obstacles g')"
    using marks_related_weak [of "takeWhile (\<lambda>ob. \<not> pipe_hit p1 ob) obs5"
        "dropWhile (\<lambda>ob. \<not> pipe_hit p1 ob) obs5" p1] by simp
  then show ?thesis unfolding obs5_def off_screen_def .
qed

lemma reachable_listed_updates:
  assumes "reachable g" and "ob \<in> set (obstacles g)"
  shows "\<exists>n. 1 \<le> n \<and> n \<le> 150 \<and> x ob = 400 - 3 * real n \<and> width ob = 50"
proof -
  from reachable_run_inv [OF assms(1)] obtain q k :: nat where
    k: "k < 90" and
    xs: "map x (obstacles g) =
           (if 1 \<le> q \<and> k \<le> 59 then [127 - 3 * real k] else []) @ [397 - 3 * real k]" and
    fl: "\<forall>ob \<in> set (obstacles g). width ob = 50 \<and> (passed ob \<longleftrightarrow> x ob < 0)"
    unfolding run_inv_def by blast
  from assms(2) have "x ob \<in> set (map x (obstacles g))" by simp
  then consider (old) "k \<le> 59" "x ob = 127 - 3 * real k" | (new) "x ob = 397 - 3 * real k"
    unfolding xs by (auto split: if_splits)
  then show ?thesis
  proof cases
    case old
    have "1 \<le> k + 91 \<and> k + 91 \<le> 150 \<and> x ob = 400 - 3 * real (k + 91) \<and> width ob = 50"
      using old fl assms(2) by simp
    then show ?thesis by blast
  next
    case new
    have "1 \<le> k + 1 \<and> k + 1 \<le> 150 \<and> x ob = 400 - 3 * real (k + 1) \<and> width ob = 50"
      using new k fl assms(2) by simp
    then show ?thesis by blast
  qed
qed

text \<open>
  C10: in every state reachable from a restart by frames and inputs, the obstacle list
  holds at most 2 obstacles. A new obstacle is off the screen (x + width < 0) exactly from
  its 151st update on. Every obstacle in the list is on the screen (0 \<le> x + width) and is
  where a new obstacle is after n updates, for some n from 1 to 150: none has had a 151st
  update and stayed. That is what a frame does: the list after a running frame is the list
  before it, with the new obstacle if one spawns, each obstacle moved, and those off the
  screen left out, up to the flags set by the scoring.
\<close>

theorem at_most_two_obstacles:
  assumes "reachable g"
  shows "length (obstacles g) \<le> 2 \<and>
         (\<forall>n. (x ((Obstacle_update ^^ n) (Obstacle_new r))
                + width ((Obstacle_update ^^ n) (Obstacle_new r)) < 0) = (151 \<le> n)) \<and>
         (\<forall>ob \<in> set (obstacles g). 0 \<le> x ob + width ob) \<and>
         (\<forall>ob \<in> set (obstacles g).
            \<exists>n. 1 \<le> n \<and> n \<le> 150 \<and>
                x ob = x ((Obstacle_update ^^ n) (Obstacle_new r)) \<and>
                width ob = width ((Obstacle_update ^^ n) (Obstacle_new r))) \<and>
         (\<forall>r' g'. \<not> isGameOver g \<and> update r' g = Inr g' \<longrightarrow>
            list_all2 (\<lambda>ob ob'. ob' = ob \<or> ob' = ob\<lparr> passed := True \<rparr>)
              (filter (\<lambda>ob. \<not> x ob + width ob < 0)
                 (map Obstacle_update
                    (obstacles g @ (if frameCount g mod PIPE_SPAWN_INTERVAL = 0
                                    then [Obstacle_new r'] else []))))
              (obstacles g'))"
proof -
  from reachable_run_inv [OF assms] obtain p and q k :: nat where
    p: "plane g = Some p" and
    xs: "map x (obstacles g) =
       (if 1 \<le> q \<and> k \<le> 59 then [127 - 3 * real k] else []) @ [397 - 3 * real k]"
    unfolding run_inv_def by blast
  from xs have "length (map x (obstacles g)) \<le> 2" by simp
  then have a: "length (obstacles g) \<le> 2" by simp
  have b: "\<forall>n. (x ((Obstacle_update ^^ n) (Obstacle_new r))
                + width ((Obstacle_update ^^ n) (Obstacle_new r)) < 0) = (151 \<le> n)"
    using Obstacle_new_off_screen_after [of _ r] unfolding off_screen_def by blast
  have d: "\<exists>n. 1 \<le> n \<and> n \<le> 150 \<and>
                x ob = x ((Obstacle_update ^^ n) (Obstacle_new r)) \<and>
                width ob = width ((Obstacle_update ^^ n) (Obstacle_new r))"
    if "ob \<in> set (obstacles g)" for ob
    using reachable_listed_updates [OF assms that] by (simp add: Obstacle_update_funpow)
  have c: "0 \<le> x ob + width ob" if "ob \<in> set (obstacles g)" for ob
  proof -
    from reachable_listed_updates [OF assms that] obtain n :: nat where
      "n \<le> 150" "x ob = 400 - 3 * real n" "width ob = 50" by blast
    then show ?thesis by simp
  qed
  have e: "list_all2 (\<lambda>ob ob'. ob' = ob \<or> ob' = ob\<lparr> passed := True \<rparr>)
              (filter (\<lambda>ob. \<not> x ob + width ob < 0)
                 (map Obstacle_update
                    (obstacles g @ (if frameCount g mod PIPE_SPAWN_INTERVAL = 0
                                    then [Obstacle_new r'] else []))))
              (obstacles g')"
    if "\<not> isGameOver g \<and> update r' g = Inr g'" for r' g'
    using frame_obstacles [OF _ p, of r' g'] that by blast
  show ?thesis
  proof (intro conjI)
    show "length (obstacles g) \<le> 2" by (rule a)
    show "\<forall>n. (x ((Obstacle_update ^^ n) (Obstacle_new r))
                + width ((Obstacle_update ^^ n) (Obstacle_new r)) < 0) = (151 \<le> n)" by (rule b)
    show "\<forall>ob \<in> set (obstacles g). 0 \<le> x ob + width ob" using c by blast
    show "\<forall>ob \<in> set (obstacles g).
            \<exists>n. 1 \<le> n \<and> n \<le> 150 \<and>
                x ob = x ((Obstacle_update ^^ n) (Obstacle_new r)) \<and>
                width ob = width ((Obstacle_update ^^ n) (Obstacle_new r))" using d by blast
    show "\<forall>r' g'. \<not> isGameOver g \<and> update r' g = Inr g' \<longrightarrow>
            list_all2 (\<lambda>ob ob'. ob' = ob \<or> ob' = ob\<lparr> passed := True \<rparr>)
              (filter (\<lambda>ob. \<not> x ob + width ob < 0)
                 (map Obstacle_update
                    (obstacles g @ (if frameCount g mod PIPE_SPAWN_INTERVAL = 0
                                    then [Obstacle_new r'] else []))))
              (obstacles g')" using e by blast
  qed
qed


theorem at_most_two_obstacles_witness:
  "reachable (flown_game 149) \<and> \<not> isGameOver (flown_game 149) \<and>
   frameCount (flown_game 149) = 150 \<and>
   map x (obstacles (flown_game 149)) = [- 50, 220] \<and>
   length (obstacles (flown_game 149)) \<le> 2 \<and>
   update (1 / 2) (flown_game 149) = Inr (projr (update (1 / 2) (flown_game 149))) \<and>
   frameCount (projr (update (1 / 2) (flown_game 149))) = 151 \<and>
   map x (obstacles (projr (update (1 / 2) (flown_game 149)))) = [217] \<and>
   list_all2 (\<lambda>ob ob'. ob' = ob \<or> ob' = ob\<lparr> passed := True \<rparr>)
     (filter (\<lambda>ob. \<not> x ob + width ob < 0)
        (map Obstacle_update
           (obstacles (flown_game 149)
              @ (if frameCount (flown_game 149) mod PIPE_SPAWN_INTERVAL = 0
                 then [Obstacle_new (1 / 2)] else []))))
     (obstacles (projr (update (1 / 2) (flown_game 149))))"
proof -
  note f = flown_game_facts [of 149]
  have fc: "frameCount (flown_game 149) = 150" using f(3) by simp
  have xs: "map x (obstacles (flown_game 149)) = [- 50, 220]"
    using run_inv_at(1) [OF reachable_run_inv [OF f(1)], of 1 59] fc by simp
  have half: "(0::real) \<le> 1 / 2" "(1 / 2 :: real) < 1" by simp_all
  note fr = frame_of_running [OF f(1) f(2) half]
  have fc': "frameCount (projr (update (1 / 2) (flown_game 149))) = 151"
    using fr(3) fc by simp
  have xs': "map x (obstacles (projr (update (1 / 2) (flown_game 149)))) = [217]"
    using run_inv_at(1) [OF reachable_run_inv [OF fr(2)], of 1 60] fc' by simp
  note t = at_most_two_obstacles [OF f(1), of "1 / 2"]
  from t have le: "length (obstacles (flown_game 149)) \<le> 2" by blast
  from t f(2) fr(1)
  have rel: "list_all2 (\<lambda>ob ob'. ob' = ob \<or> ob' = ob\<lparr> passed := True \<rparr>)
     (filter (\<lambda>ob. \<not> x ob + width ob < 0)
        (map Obstacle_update
           (obstacles (flown_game 149)
              @ (if frameCount (flown_game 149) mod PIPE_SPAWN_INTERVAL = 0
                 then [Obstacle_new (1 / 2)] else []))))
     (obstacles (projr (update (1 / 2) (flown_game 149))))"
    by blast
  from f(1) f(2) fc xs le fr(1) fc' xs' rel show ?thesis by blast
qed

subsection \<open>Scoring over the frames of a run\<close>

text \<open>
  Moving an obstacle keeps its flag, so the flags that a frame sets are those that
  \<open>checkCollision\<close> sets at its end, on the obstacles that the frame has kept.
\<close>

lemma flips_through_move:
  "length (filter (\<lambda>(ob, ob'). \<not> passed ob \<and> passed ob') (zip (map Obstacle_update obs) obs'))
     = length (filter (\<lambda>(ob, ob'). \<not> passed ob \<and> passed ob') (zip obs obs'))"
proof -
  have "zip (map Obstacle_update obs) obs' = map (\<lambda>(a, b). (Obstacle_update a, b)) (zip obs obs')"
    by (simp add: zip_map1)
  then show ?thesis
    by (simp add: filter_map o_def case_prod_unfold)
qed

lemma moved_survivors:
  "filter (\<lambda>ob. \<not> off_screen ob) (map Obstacle_update obs)
     = map Obstacle_update (filter (\<lambda>ob. \<not> x ob - 3 + width ob < 0) obs)"
  by (simp add: filter_map o_def off_screen_def)

lemma frame_flags_and_score:
  fixes r :: real
  assumes running: "\<not> isGameOver g" and p: "plane g = Some p" and upd: "update r g = Inr g'"
  defines "survivors \<equiv> filter (\<lambda>ob. \<not> x ob - 3 + width ob < 0)
     (obstacles g @ (if frameCount g mod PIPE_SPAWN_INTERVAL = 0 then [Obstacle_new r] else []))"
  shows "list_all2
           (\<lambda>ob ob'. x ob' = x ob - 3 \<and> (passed ob \<longrightarrow> passed ob') \<and>
              (if passed ob then ob' = Obstacle_update ob
               else ob' = Obstacle_update ob \<or>
                    (x p > x ob' + width ob' \<and> ob' = (Obstacle_update ob)\<lparr> passed := True \<rparr>)))
           survivors (obstacles g')"
    and "score g' = score g + length (filter (\<lambda>(ob, ob'). \<not> passed ob \<and> passed ob')
                                        (zip survivors (obstacles g')))"
proof -
  define p1 where "p1 = fst (Plane_update p g)"
  define obs5 where "obs5 = filter (\<lambda>ob. \<not> off_screen ob)
     (map Obstacle_update
        (obstacles g @ (if frameCount g mod PIPE_SPAWN_INTERVAL = 0 then [Obstacle_new r] else [])))"
  define pre where "pre = takeWhile (\<lambda>ob. \<not> pipe_hit p1 ob) obs5"
  define suf where "suf = dropWhile (\<lambda>ob. \<not> pipe_hit p1 ob) obs5"
  from update_running [OF running p, of r] upd
  have g': "obstacles g' = map (mark_passed p1) pre @ suf"
    "score g' = score g + length (filter (newly_passed p1) pre)"
    unfolding p1_def obs5_def pre_def suf_def by auto
  have split: "pre @ suf = map Obstacle_update survivors"
    unfolding pre_def suf_def obs5_def survivors_def by (simp add: moved_survivors)
  have xp: "x p1 = x p" by (simp add: p1_def)
  have "list_all2
      (\<lambda>ob ob'. if passed ob then ob' = ob
                 else ob' = ob \<or> (x p1 > x ob + width ob \<and> ob' = ob\<lparr> passed := True \<rparr>))
      (map Obstacle_update survivors) (obstacles g')"
    unfolding g'(1) split [symmetric] by (rule marks_related)
  then have "list_all2
      (\<lambda>ob ob'. if passed (Obstacle_update ob) then ob' = Obstacle_update ob
                 else ob' = Obstacle_update ob \<or>
                      (x p1 > x (Obstacle_update ob) + width (Obstacle_update ob) \<and>
                       ob' = (Obstacle_update ob)\<lparr> passed := True \<rparr>))
      survivors (obstacles g')"
    by (simp add: list_all2_map1)
  then show "list_all2
           (\<lambda>ob ob'. x ob' = x ob - 3 \<and> (passed ob \<longrightarrow> passed ob') \<and>
              (if passed ob then ob' = Obstacle_update ob
               else ob' = Obstacle_update ob \<or>
                    (x p > x ob' + width ob' \<and> ob' = (Obstacle_update ob)\<lparr> passed := True \<rparr>)))
           survivors (obstacles g')"
    by (rule list_all2_mono) (auto simp add: xp split: if_splits)
  have "length (filter (\<lambda>(ob, ob'). \<not> passed ob \<and> passed ob') (zip survivors (obstacles g')))
      = length (filter (\<lambda>(ob, ob'). \<not> passed ob \<and> passed ob')
                  (zip (map Obstacle_update survivors) (obstacles g')))"
    by (simp only: flips_through_move)
  also have "\<dots> = length (filter (newly_passed p1) pre)"
    unfolding g'(1) split [symmetric] by (simp only: flips_count)
  finally show "score g' = score g + length (filter (\<lambda>(ob, ob'). \<not> passed ob \<and> passed ob')
                                        (zip survivors (obstacles g')))"
    using g'(2) by simp
qed


text \<open>
  C4: in one pass of \<open>checkCollision\<close>, an obstacle whose flag \<open>passed\<close> is set is left
  as it is; an obstacle whose flag is not set is left as it is or, only if the plane's x is
  beyond its right edge, gets the flag set and nothing else changed; the score grows by
  exactly the number of obstacles whose flag went from unset to set. When the pass does not
  end in a collision, every obstacle behind the plane has its flag set, and in every state
  reachable from a restart the flag of each obstacle in the list is set exactly when the
  obstacle is behind the plane: the flag is set in the first frame after which the obstacle
  is behind the plane. Over the frames of a run: \<open>Obstacle.update\<close> keeps the flag. A
  running frame pairs each obstacle it keeps (those of the list before it, and the new one
  if one spawns, that are not off the screen once moved) with the obstacle at the same place
  of the list after it: that one is the same obstacle, 3 to the left; a set flag is still
  set; an unset flag is still unset or, only if the obstacle is now behind the plane, has
  been set; and the score has grown by exactly the number of kept obstacles whose flag
  went from unset to set in this frame. An input while the game runs changes neither the
  obstacles nor the score. So each obstacle is scored at most once, and in every state
  reachable from a restart the score of the run is the number of the run's obstacles that
  have come behind the plane: obstacle number j, spawned in frame 90 j + 1, is behind the
  plane from frame 90 j + 134 on.
\<close>

theorem passed_flag_scores_once:
  assumes "plane g = Some p"
  shows "\<not> isl (checkCollision g) \<and>
    list_all2
      (\<lambda>ob ob'. if passed ob then ob' = ob
                 else ob' = ob \<or> (x p > x ob + width ob \<and> ob' = ob\<lparr> passed := True \<rparr>))
      (obstacles g) (obstacles (snd (projr (checkCollision g)))) \<and>
    score (snd (projr (checkCollision g)))
      = score g + length (filter (\<lambda>(ob, ob'). \<not> passed ob \<and> passed ob')
                            (zip (obstacles g) (obstacles (snd (projr (checkCollision g)))))) \<and>
    (\<not> fst (projr (checkCollision g)) \<longrightarrow>
       (\<forall>ob \<in> set (obstacles (snd (projr (checkCollision g)))).
          x p > x ob + width ob \<longrightarrow> passed ob)) \<and>
    (reachable g \<longrightarrow> (\<forall>ob \<in> set (obstacles g). passed ob \<longleftrightarrow> x p > x ob + width ob)) \<and>
    (\<forall>ob. passed (Obstacle_update ob) = passed ob) \<and>
    (\<forall>r g'. \<not> isGameOver g \<and> update r g = Inr g' \<longrightarrow>
       list_all2
         (\<lambda>ob ob'. x ob' = x ob - 3 \<and> (passed ob \<longrightarrow> passed ob') \<and>
            (if passed ob then ob' = Obstacle_update ob
             else ob' = Obstacle_update ob \<or>
                  (x p > x ob' + width ob' \<and> ob' = (Obstacle_update ob)\<lparr> passed := True \<rparr>)))
         (filter (\<lambda>ob. \<not> x ob - 3 + width ob < 0)
            (obstacles g @ (if frameCount g mod PIPE_SPAWN_INTERVAL = 0
                            then [Obstacle_new r] else [])))
         (obstacles g') \<and>
       score g' = score g + length (filter (\<lambda>(ob, ob'). \<not> passed ob \<and> passed ob')
           (zip (filter (\<lambda>ob. \<not> x ob - 3 + width ob < 0)
                   (obstacles g @ (if frameCount g mod PIPE_SPAWN_INTERVAL = 0
                                   then [Obstacle_new r] else [])))
                (obstacles g')))) \<and>
    (\<forall>r g'. \<not> isGameOver g \<and> handleInput r g = Inr g' \<longrightarrow>
       obstacles g' = obstacles g \<and> score g' = score g) \<and>
    (reachable g \<longrightarrow>
       score g = card {j. 90 * j + 134 \<le> frameCount g} \<and>
       score g = (frameCount g - 44) div 90)"
proof -
  define pre where "pre = takeWhile (\<lambda>ob. \<not> pipe_hit p ob) (obstacles g)"
  define suf where "suf = dropWhile (\<lambda>ob. \<not> pipe_hit p ob) (obstacles g)"
  have split: "obstacles g = pre @ suf" by (simp add: pre_def suf_def)
  note res = checkCollision_results [OF assms, folded pre_def suf_def]
  have a: "\<not> isl (checkCollision g)" by (rule res(1))
  have b: "list_all2
      (\<lambda>ob ob'. if passed ob then ob' = ob
                 else ob' = ob \<or> (x p > x ob + width ob \<and> ob' = ob\<lparr> passed := True \<rparr>))
      (obstacles g) (obstacles (snd (projr (checkCollision g))))"
    unfolding res(3) split by (rule marks_related)
  have c: "score (snd (projr (checkCollision g)))
      = score g + length (filter (\<lambda>(ob, ob'). \<not> passed ob \<and> passed ob')
                            (zip (obstacles g) (obstacles (snd (projr (checkCollision g))))))"
    unfolding res(3) res(4) split by (simp only: flips_count)
  have d: "\<not> fst (projr (checkCollision g)) \<longrightarrow>
       (\<forall>ob \<in> set (obstacles (snd (projr (checkCollision g)))).
          x p > x ob + width ob \<longrightarrow> passed ob)"
  proof
    assume "\<not> fst (projr (checkCollision g))"
    with res(2) have "suf = []"
      by (auto simp add: suf_def dropWhile_eq_Nil_conv)
    then show "\<forall>ob \<in> set (obstacles (snd (projr (checkCollision g)))).
          x p > x ob + width ob \<longrightarrow> passed ob"
      unfolding res(3) by (auto simp add: newly_passed_def)
  qed
  have e: "reachable g \<longrightarrow> (\<forall>ob \<in> set (obstacles g). passed ob \<longleftrightarrow> x p > x ob + width ob)"
    using reachable_passed_iff [OF _ assms] by blast
  have f: "\<forall>ob. passed (Obstacle_update ob) = passed ob" by simp
  have h: "\<forall>r g'. \<not> isGameOver g \<and> update r g = Inr g' \<longrightarrow>
       list_all2
         (\<lambda>ob ob'. x ob' = x ob - 3 \<and> (passed ob \<longrightarrow> passed ob') \<and>
            (if passed ob then ob' = Obstacle_update ob
             else ob' = Obstacle_update ob \<or>
                  (x p > x ob' + width ob' \<and> ob' = (Obstacle_update ob)\<lparr> passed := True \<rparr>)))
         (filter (\<lambda>ob. \<not> x ob - 3 + width ob < 0)
            (obstacles g @ (if frameCount g mod PIPE_SPAWN_INTERVAL = 0
                            then [Obstacle_new r] else [])))
         (obstacles g') \<and>
       score g' = score g + length (filter (\<lambda>(ob, ob'). \<not> passed ob \<and> passed ob')
           (zip (filter (\<lambda>ob. \<not> x ob - 3 + width ob < 0)
                   (obstacles g @ (if frameCount g mod PIPE_SPAWN_INTERVAL = 0
                                   then [Obstacle_new r] else [])))
                (obstacles g')))"
  proof (intro allI impI, elim conjE)
    fix r g' assume "\<not> isGameOver g" and "update r g = Inr g'"
    from frame_flags_and_score [OF this(1) assms this(2)]
    show "list_all2
         (\<lambda>ob ob'. x ob' = x ob - 3 \<and> (passed ob \<longrightarrow> passed ob') \<and>
            (if passed ob then ob' = Obstacle_update ob
             else ob' = Obstacle_update ob \<or>
                  (x p > x ob' + width ob' \<and> ob' = (Obstacle_update ob)\<lparr> passed := True \<rparr>)))
         (filter (\<lambda>ob. \<not> x ob - 3 + width ob < 0)
            (obstacles g @ (if frameCount g mod PIPE_SPAWN_INTERVAL = 0
                            then [Obstacle_new r] else [])))
         (obstacles g') \<and>
       score g' = score g + length (filter (\<lambda>(ob, ob'). \<not> passed ob \<and> passed ob')
           (zip (filter (\<lambda>ob. \<not> x ob - 3 + width ob < 0)
                   (obstacles g @ (if frameCount g mod PIPE_SPAWN_INTERVAL = 0
                                   then [Obstacle_new r] else [])))
                (obstacles g')))"
      by (rule conjI)
  qed
  have j: "\<forall>r g'. \<not> isGameOver g \<and> handleInput r g = Inr g' \<longrightarrow>
       obstacles g' = obstacles g \<and> score g' = score g"
    using assms by (auto simp add: handleInput_def)
  have i: "reachable g \<longrightarrow>
       score g = card {j. 90 * j + 134 \<le> frameCount g} \<and>
       score g = (frameCount g - 44) div 90"
    using reachable_score [of g] by (simp add: passed_count)
  show ?thesis
    using a b c d e f h i j by blast
qed

theorem passed_flag_scores_once_witness:
  "plane pipe_behind_game = Some Plane_new \<and>
   \<not> fst (projr (checkCollision pipe_behind_game)) \<and>
   obstacles (snd (projr (checkCollision pipe_behind_game)))
     = [(Obstacle_new (1 / 2))\<lparr> x := - 2, passed := True \<rparr>] \<and>
   score (snd (projr (checkCollision pipe_behind_game))) = score pipe_behind_game + 1 \<and>
   score (snd (projr (checkCollision (snd (projr (checkCollision pipe_behind_game))))))
     = score (snd (projr (checkCollision pipe_behind_game))) \<and>
   reachable (projr (startGame (1 / 2) idle_game)) \<and>
   plane (projr (startGame (1 / 2) idle_game))
     = Some (Plane_new\<lparr> y := 3003 / 10, velocity := 3 / 10, tilt := 6 / 5 \<rparr>) \<and>
   obstacles (projr (startGame (1 / 2) idle_game)) = [(Obstacle_new (1 / 2))\<lparr> x := 397 \<rparr>] \<and>
   \<not> passed ((Obstacle_new (1 / 2))\<lparr> x := 397 \<rparr>) \<and>
   reachable (flown_game 132) \<and> \<not> isGameOver (flown_game 132) \<and>
   frameCount (flown_game 132) = 133 \<and>
   map x (obstacles (flown_game 132)) = [1, 271] \<and>
   map passed (obstacles (flown_game 132)) = [False, False] \<and>
   score (flown_game 132) = 0 \<and>
   update (1 / 2) (flown_game 132) = Inr (projr (update (1 / 2) (flown_game 132))) \<and>
   frameCount (projr (update (1 / 2) (flown_game 132))) = 134 \<and>
   map x (obstacles (projr (update (1 / 2) (flown_game 132)))) = [- 2, 268] \<and>
   map passed (obstacles (projr (update (1 / 2) (flown_game 132)))) = [True, False] \<and>
   score (projr (update (1 / 2) (flown_game 132))) = 1 \<and>
   length (filter (\<lambda>(ob, ob'). \<not> passed ob \<and> passed ob')
      (zip (filter (\<lambda>ob. \<not> x ob - 3 + width ob < 0)
              (obstacles (flown_game 132)
                 @ (if frameCount (flown_game 132) mod PIPE_SPAWN_INTERVAL = 0
                    then [Obstacle_new (1 / 2)] else [])))
           (obstacles (projr (update (1 / 2) (flown_game 132)))))) = 1 \<and>
   reachable (flown_game 133) \<and> \<not> isGameOver (flown_game 133) \<and>
   frameCount (flown_game 133) = 134 \<and>
   map passed (obstacles (flown_game 133)) = [True, False] \<and>
   score (flown_game 133) = 1 \<and>
   update (1 / 2) (flown_game 133) = Inr (projr (update (1 / 2) (flown_game 133))) \<and>
   frameCount (projr (update (1 / 2) (flown_game 133))) = 135 \<and>
   map passed (obstacles (projr (update (1 / 2) (flown_game 133)))) = [True, False] \<and>
   score (projr (update (1 / 2) (flown_game 133))) = 1 \<and>
   length (filter (\<lambda>(ob, ob'). \<not> passed ob \<and> passed ob')
      (zip (filter (\<lambda>ob. \<not> x ob - 3 + width ob < 0)
              (obstacles (flown_game 133)
                 @ (if frameCount (flown_game 133) mod PIPE_SPAWN_INTERVAL = 0
                    then [Obstacle_new (1 / 2)] else [])))
           (obstacles (projr (update (1 / 2) (flown_game 133)))))) = 0 \<and>
   handleInput (1 / 2) (flown_game 133) = Inr (projr (handleInput (1 / 2) (flown_game 133))) \<and>
   map passed (obstacles (projr (handleInput (1 / 2) (flown_game 133)))) = [True, False] \<and>
   score (projr (handleInput (1 / 2) (flown_game 133))) = 1 \<and>
   frameCount (flown_game 149) = 150 \<and>
   map x (obstacles (flown_game 149)) = [- 50, 220] \<and>
   map passed (obstacles (flown_game 149)) = [True, False] \<and>
   score (flown_game 149) = 1 \<and>
   card {j. 90 * j + 134 \<le> frameCount (flown_game 149)} = 1"
proof -
  have h: "plane pipe_behind_game = Some Plane_new" by simp
  have s: "startGame (1 / 2) idle_game = Inr (projr (startGame (1 / 2) idle_game))"
    by (simp add: startGame_result)
  have r: "reachable (projr (startGame (1 / 2) idle_game))"
    by (rule reach_start [OF _ _ s]) simp_all
  have h2: "plane (projr (startGame (1 / 2) idle_game))
     = Some (Plane_new\<lparr> y := 3003 / 10, velocity := 3 / 10, tilt := 6 / 5 \<rparr>)"
    by (simp add: startGame_result)
  have c1: "checkCollision pipe_behind_game =
     Inr (False, pipe_behind_game\<lparr> score := 1,
            obstacles := [(Obstacle_new (1 / 2))\<lparr> x := - 2, passed := True \<rparr>] \<rparr>)"
    by (rule checkCollision_pipe_behind)
  have nh: "\<not> fst (projr (checkCollision pipe_behind_game))" by (simp add: c1)
  have ob: "obstacles (snd (projr (checkCollision pipe_behind_game)))
     = [(Obstacle_new (1 / 2))\<lparr> x := - 2, passed := True \<rparr>]"
    by (simp add: c1)
  from passed_flag_scores_once [OF h]
  have "score (snd (projr (checkCollision pipe_behind_game)))
      = score pipe_behind_game + length (filter (\<lambda>(ob, ob'). \<not> passed ob \<and> passed ob')
           (zip (obstacles pipe_behind_game)
                (obstacles (snd (projr (checkCollision pipe_behind_game))))))"
    by blast
  then have sc: "score (snd (projr (checkCollision pipe_behind_game))) = score pipe_behind_game + 1"
    by (simp add: ob)
  have sc2: "score (snd (projr (checkCollision (snd (projr (checkCollision pipe_behind_game))))))
     = score (snd (projr (checkCollision pipe_behind_game)))"
    by (simp only: c1 checkCollision_pipe_behind_again sum.sel snd_conv)
  have o2: "obstacles (projr (startGame (1 / 2) idle_game)) = [(Obstacle_new (1 / 2))\<lparr> x := 397 \<rparr>]"
    by (simp add: startGame_result)
  from passed_flag_scores_once [OF h2] r
  have "\<forall>ob \<in> set (obstacles (projr (startGame (1 / 2) idle_game))).
          passed ob \<longleftrightarrow> x (Plane_new\<lparr> y := 3003 / 10, velocity := 3 / 10, tilt := 6 / 5 \<rparr>)
                            > x ob + width ob"
    by blast
  then have np: "\<not> passed ((Obstacle_new (1 / 2))\<lparr> x := 397 \<rparr>)"
    by (simp add: o2 Plane_new_def)
  have half: "(0::real) \<le> 1 / 2" "(1 / 2 :: real) < 1" by simp_all
  note fa = flown_game_facts [of 132]
  have fca: "frameCount (flown_game 132) = 133" using fa(3) by simp
  note ria = run_inv_at [OF reachable_run_inv [OF fa(1)], of 1 42]
  have xsa: "map x (obstacles (flown_game 132)) = [1, 271]" using ria(1) fca by simp
  have psa: "map passed (obstacles (flown_game 132)) = [False, False]" using ria(2) fca xsa by simp
  have sca: "score (flown_game 132) = 0" using ria(3) fca by simp
  note fra = frame_of_running [OF fa(1) fa(2) half]
  have fca': "frameCount (projr (update (1 / 2) (flown_game 132))) = 134"
    using fra(3) fca by simp
  note rja = run_inv_at [OF reachable_run_inv [OF fra(2)], of 1 43]
  have xsa': "map x (obstacles (projr (update (1 / 2) (flown_game 132)))) = [- 2, 268]"
    using rja(1) fca' by simp
  have psa': "map passed (obstacles (projr (update (1 / 2) (flown_game 132)))) = [True, False]"
    using rja(2) fca' xsa' by simp
  have sca': "score (projr (update (1 / 2) (flown_game 132))) = 1"
    using rja(3) fca' by simp
  from passed_flag_scores_once [OF fa(4)] fa(2) fra(1)
  have "score (projr (update (1 / 2) (flown_game 132))) = score (flown_game 132) +
    length (filter (\<lambda>(ob, ob'). \<not> passed ob \<and> passed ob')
      (zip (filter (\<lambda>ob. \<not> x ob - 3 + width ob < 0)
              (obstacles (flown_game 132)
                 @ (if frameCount (flown_game 132) mod PIPE_SPAWN_INTERVAL = 0
                    then [Obstacle_new (1 / 2)] else [])))
           (obstacles (projr (update (1 / 2) (flown_game 132))))))"
    by blast
  then have fla: "length (filter (\<lambda>(ob, ob'). \<not> passed ob \<and> passed ob')
      (zip (filter (\<lambda>ob. \<not> x ob - 3 + width ob < 0)
              (obstacles (flown_game 132)
                 @ (if frameCount (flown_game 132) mod PIPE_SPAWN_INTERVAL = 0
                    then [Obstacle_new (1 / 2)] else [])))
           (obstacles (projr (update (1 / 2) (flown_game 132)))))) = 1"
    unfolding sca sca' by simp
  note fb = flown_game_facts [of 133]
  have fcb: "frameCount (flown_game 133) = 134" using fb(3) by simp
  note rib = run_inv_at [OF reachable_run_inv [OF fb(1)], of 1 43]
  have xsb: "map x (obstacles (flown_game 133)) = [- 2, 268]" using rib(1) fcb by simp
  have psb: "map passed (obstacles (flown_game 133)) = [True, False]" using rib(2) fcb xsb by simp
  have scb: "score (flown_game 133) = 1" using rib(3) fcb by simp
  note frb = frame_of_running [OF fb(1) fb(2) half]
  have fcb': "frameCount (projr (update (1 / 2) (flown_game 133))) = 135"
    using frb(3) fcb by simp
  note rjb = run_inv_at [OF reachable_run_inv [OF frb(2)], of 1 44]
  have xsb': "map x (obstacles (projr (update (1 / 2) (flown_game 133)))) = [- 5, 265]"
    using rjb(1) fcb' by simp
  have psb': "map passed (obstacles (projr (update (1 / 2) (flown_game 133)))) = [True, False]"
    using rjb(2) fcb' xsb' by simp
  have scb': "score (projr (update (1 / 2) (flown_game 133))) = 1"
    using rjb(3) fcb' by simp
  from passed_flag_scores_once [OF fb(4)] fb(2) frb(1)
  have "score (projr (update (1 / 2) (flown_game 133))) = score (flown_game 133) +
    length (filter (\<lambda>(ob, ob'). \<not> passed ob \<and> passed ob')
      (zip (filter (\<lambda>ob. \<not> x ob - 3 + width ob < 0)
              (obstacles (flown_game 133)
                 @ (if frameCount (flown_game 133) mod PIPE_SPAWN_INTERVAL = 0
                    then [Obstacle_new (1 / 2)] else [])))
           (obstacles (projr (update (1 / 2) (flown_game 133))))))"
    by blast
  then have flb: "length (filter (\<lambda>(ob, ob'). \<not> passed ob \<and> passed ob')
      (zip (filter (\<lambda>ob. \<not> x ob - 3 + width ob < 0)
              (obstacles (flown_game 133)
                 @ (if frameCount (flown_game 133) mod PIPE_SPAWN_INTERVAL = 0
                    then [Obstacle_new (1 / 2)] else [])))
           (obstacles (projr (update (1 / 2) (flown_game 133)))))) = 0"
    unfolding scb scb' by simp
  have hi: "handleInput (1 / 2) (flown_game 133)
              = Inr (projr (handleInput (1 / 2) (flown_game 133)))"
    using fb(2) fb(4) by (cases "plane (flown_game 133)") (simp_all add: handleInput_def)
  from passed_flag_scores_once [OF fb(4)] fb(2) hi
  have "obstacles (projr (handleInput (1 / 2) (flown_game 133))) = obstacles (flown_game 133)
        \<and> score (projr (handleInput (1 / 2) (flown_game 133))) = score (flown_game 133)"
    by blast
  then have psi: "map passed (obstacles (projr (handleInput (1 / 2) (flown_game 133))))
                   = [True, False]"
    and sci: "score (projr (handleInput (1 / 2) (flown_game 133))) = 1"
    using psb scb by simp_all
  note fc = flown_game_facts [of 149]
  have fcc: "frameCount (flown_game 149) = 150" using fc(3) by simp
  note ric = run_inv_at [OF reachable_run_inv [OF fc(1)], of 1 59]
  have xsc: "map x (obstacles (flown_game 149)) = [- 50, 220]" using ric(1) fcc by simp
  have psc: "map passed (obstacles (flown_game 149)) = [True, False]"
    using ric(2) fcc xsc by simp
  from passed_flag_scores_once [OF fc(4)] fc(1)
  have sc_card: "score (flown_game 149) = card {j. 90 * j + 134 \<le> frameCount (flown_game 149)}"
    and sc_div: "score (flown_game 149) = (frameCount (flown_game 149) - 44) div 90"
    by blast+
  have scc: "score (flown_game 149) = 1" using sc_div fcc by simp
  have cdc: "card {j. 90 * j + 134 \<le> frameCount (flown_game 149)} = 1"
    using sc_card scc by simp
  have old: "plane pipe_behind_game = Some Plane_new \<and>
   \<not> fst (projr (checkCollision pipe_behind_game)) \<and>
   obstacles (snd (projr (checkCollision pipe_behind_game)))
     = [(Obstacle_new (1 / 2))\<lparr> x := - 2, passed := True \<rparr>] \<and>
   score (snd (projr (checkCollision pipe_behind_game))) = score pipe_behind_game + 1 \<and>
   score (snd (projr (checkCollision (snd (projr (checkCollision pipe_behind_game))))))
     = score (snd (projr (checkCollision pipe_behind_game))) \<and>
   reachable (projr (startGame (1 / 2) idle_game)) \<and>
   plane (projr (startGame (1 / 2) idle_game))
     = Some (Plane_new\<lparr> y := 3003 / 10, velocity := 3 / 10, tilt := 6 / 5 \<rparr>) \<and>
   obstacles (projr (startGame (1 / 2) idle_game)) = [(Obstacle_new (1 / 2))\<lparr> x := 397 \<rparr>] \<and>
   \<not> passed ((Obstacle_new (1 / 2))\<lparr> x := 397 \<rparr>)"
    using h nh ob sc sc2 r h2 o2 np by blast
  have first: "reachable (flown_game 132) \<and> \<not> isGameOver (flown_game 132) \<and>
   frameCount (flown_game 132) = 133 \<and>
   map x (obstacles (flown_game 132)) = [1, 271] \<and>
   map passed (obstacles (flown_game 132)) = [False, False] \<and>
   score (flown_game 132) = 0 \<and>
   update (1 / 2) (flown_game 132) = Inr (projr (update (1 / 2) (flown_game 132))) \<and>
   frameCount (projr (update (1 / 2) (flown_game 132))) = 134 \<and>
   map x (obstacles (projr (update (1 / 2) (flown_game 132)))) = [- 2, 268] \<and>
   map passed (obstacles (projr (update (1 / 2) (flown_game 132)))) = [True, False] \<and>
   score (projr (update (1 / 2) (flown_game 132))) = 1 \<and>
   length (filter (\<lambda>(ob, ob'). \<not> passed ob \<and> passed ob')
      (zip (filter (\<lambda>ob. \<not> x ob - 3 + width ob < 0)
              (obstacles (flown_game 132)
                 @ (if frameCount (flown_game 132) mod PIPE_SPAWN_INTERVAL = 0
                    then [Obstacle_new (1 / 2)] else [])))
           (obstacles (projr (update (1 / 2) (flown_game 132)))))) = 1"
    using fa(1) fa(2) fca xsa psa sca fra(1) fca' xsa' psa' sca' fla by blast
  have second: "reachable (flown_game 133) \<and> \<not> isGameOver (flown_game 133) \<and>
   frameCount (flown_game 133) = 134 \<and>
   map passed (obstacles (flown_game 133)) = [True, False] \<and>
   score (flown_game 133) = 1 \<and>
   update (1 / 2) (flown_game 133) = Inr (projr (update (1 / 2) (flown_game 133))) \<and>
   frameCount (projr (update (1 / 2) (flown_game 133))) = 135 \<and>
   map passed (obstacles (projr (update (1 / 2) (flown_game 133)))) = [True, False] \<and>
   score (projr (update (1 / 2) (flown_game 133))) = 1 \<and>
   length (filter (\<lambda>(ob, ob'). \<not> passed ob \<and> passed ob')
      (zip (filter (\<lambda>ob. \<not> x ob - 3 + width ob < 0)
              (obstacles (flown_game 133)
                 @ (if frameCount (flown_game 133) mod PIPE_SPAWN_INTERVAL = 0
                    then [Obstacle_new (1 / 2)] else [])))
           (obstacles (projr (update (1 / 2) (flown_game 133)))))) = 0"
    using fb(1) fb(2) fcb psb scb frb(1) fcb' psb' scb' flb by blast
  have third: "handleInput (1 / 2) (flown_game 133)
       = Inr (projr (handleInput (1 / 2) (flown_game 133))) \<and>
   map passed (obstacles (projr (handleInput (1 / 2) (flown_game 133)))) = [True, False] \<and>
   score (projr (handleInput (1 / 2) (flown_game 133))) = 1 \<and>
   frameCount (flown_game 149) = 150 \<and>
   map x (obstacles (flown_game 149)) = [- 50, 220] \<and>
   map passed (obstacles (flown_game 149)) = [True, False] \<and>
   score (flown_game 149) = 1 \<and>
   card {j. 90 * j + 134 \<le> frameCount (flown_game 149)} = 1"
    using hi psi sci fcc xsc psc scc cdc by blast
  from old first second third show ?thesis by blast
qed

end
